theory Spec2Isabelle
  imports Main "HOL-Library.AList"
begin

section \<open>Errors, payloads and datasets\<close>

text \<open>
  Go error values. \<open>EOF\<close> is \<^verbatim>\<open>io.EOF\<close>, \<open>ErrClosedPipe\<close> is \<^verbatim>\<open>io.ErrClosedPipe\<close>,
  \<open>Canceled\<close> and \<open>DeadlineExceeded\<close> are the two errors of package context,
  \<open>Errorf s\<close> is the value of \<^verbatim>\<open>fmt.Errorf\<close> with message \<open>s\<close>, \<open>ErrMsg s\<close> is
  \<^verbatim>\<open>&errMsg{s}\<close>, and \<open>ExtError s\<close> is any error produced by an external collaborator
  (transport, distributer, hash ring). Comparison with \<^verbatim>\<open>==\<close> is equality of constructors,
  so \<open>ErrMsg ''EOF''\<close> is not \<open>EOF\<close>.
\<close>

datatype error = EOF | ErrClosedPipe | Canceled | DeadlineExceeded
  | Errorf string | ErrMsg string | ExtError string

fun Error :: "error \<Rightarrow> string" where
  "Error EOF = ''EOF''"
| "Error ErrClosedPipe = ''io: read/write on closed pipe''"
| "Error Canceled = ''context canceled''"
| "Error DeadlineExceeded = ''context deadline exceeded''"
| "Error (Errorf s) = s"
| "Error (ErrMsg s) = s"
| "Error (ExtError s) = s"

text \<open>
  Modelled from the spec: the Dataset type (its declaration is not among the sources).
  A dataset is an ordered sequence of rows; a row is the list of the string
  representations of its cells. \<open>NewDataset\<close> is the empty dataset, \<open>Append\<close>
  concatenates, \<open>Slice\<close> takes a row range, and \<open>Strings_At\<close> is
  \<^verbatim>\<open>At(col).Strings()\<close>: one string per row.
\<close>

type_synonym row = "string list"
type_synonym dataset = "row list"

definition NewDataset :: dataset where
  "NewDataset = []"

definition Append :: "dataset \<Rightarrow> dataset \<Rightarrow> dataset" where
  "Append d other = d @ other"

definition Slice :: "dataset \<Rightarrow> nat \<Rightarrow> nat \<Rightarrow> dataset" where
  "Slice d s e = take (e - s) (drop s d)"

text \<open>The value held by the \<^verbatim>\<open>interface{}\<close> field \<^verbatim>\<open>req.Payload\<close>.\<close>

datatype payload = PNil | PDataset dataset | PError error | POther string

text \<open>
  \<^verbatim>\<open>isEOFError\<close> of an envelope with the given payload: the payload is an error and its
  message is that of \<^verbatim>\<open>io.EOF\<close>.
\<close>

definition isEOFError :: "payload \<Rightarrow> bool" where
  "isEOFError p = (case p of PError err \<Rightarrow> Error err = Error EOF | _ \<Rightarrow> False)"

text \<open>What a call does: it returns, it panics, or it suspends on a channel for ever.\<close>

datatype 'a outcome = Returns 'a | Panics | Blocks

text \<open>Sequencing of calls that may panic or suspend.\<close>

fun obind :: "'a outcome \<Rightarrow> ('a \<Rightarrow> 'b outcome) \<Rightarrow> 'b outcome" where
  "obind (Returns x) f = f x"
| "obind Panics f = Panics"
| "obind Blocks f = Blocks"

section \<open>Connections, the short-circuit and the world\<close>

text \<open>
  Objects live in a store and are referred to by address, since one short-circuit is at the
  same time closer, encoder and decoder, and one connection is shared by a closer, an
  encoder and a decoder.
\<close>

type_synonym addr = nat

datatype closer = CloserSC addr | CloserConn addr
datatype encoder = EncSC addr | EncGob addr
datatype decoder = DecSC addr | DecDbg addr string

text \<open>
  \<^verbatim>\<open>shortCircuit\<close>: the buffered channel \<open>C\<close> holds the payloads of the queued envelopes.
  The channel is made with room for \<open>chanCap\<close> envelopes; a send that finds it full suspends.
\<close>

definition chanCap :: nat where
  "chanCap = 1000"

record shortCircuit =
  C :: "payload list"
  closed :: bool

text \<open>
  A network connection with its gob encoder and decoder is external; it is given by the
  results of its successive calls. An exhausted script means success for \<open>Encode\<close> and
  \<open>Close\<close>, and a closed stream (\<^verbatim>\<open>io.EOF\<close>) for \<open>Decode\<close>.
\<close>

record netConn =
  encodeErrs :: "error option list"
  incoming :: "(error + payload) list"
  closeErrs :: "error option list"

datatype event =
    EvConnect string string "error option"
  | EvEncode encoder payload "error option"
  | EvDecode decoder "error option"
  | EvClose closer "error option"

text \<open>
  The world: both stores with their next free address, the trace of every call made on a
  connection, a short-circuit or the distributer, and two choices that belong to the
  environment: where the consistent-hash ring places a key among its members, and the
  order in which the runtime iterates a map.
\<close>

record world =
  scs :: "addr \<Rightarrow> shortCircuit"
  nextSC :: addr
  netConns :: "addr \<Rightarrow> netConn"
  nextConn :: addr
  trace :: "event list"
  ringLocate :: "string list \<Rightarrow> string \<Rightarrow> string"
  mapOrder :: "encoder list"

definition logEv :: "event \<Rightarrow> world \<Rightarrow> world" where
  "logEv ev w = w\<lparr>trace := trace w @ [ev]\<rparr>"

definition newShortCircuit :: "world \<Rightarrow> addr \<times> world" where
  "newShortCircuit w =
     (nextSC w, w\<lparr>scs := (scs w)(nextSC w := \<lparr>C = [], closed = False\<rparr>),
                  nextSC := Suc (nextSC w)\<rparr>)"

fun CloseC :: "closer \<Rightarrow> world \<Rightarrow> error option \<times> world" where
  "CloseC (CloserSC a) w =
     (let sc = scs w a in
      if closed sc then (None, logEv (EvClose (CloserSC a) None) w)
      else (None, logEv (EvClose (CloserSC a) None)
                    (w\<lparr>scs := (scs w)(a := sc\<lparr>closed := True\<rparr>)\<rparr>)))"
| "CloseC (CloserConn a) w =
     (let c = netConns w a;
          r = (case closeErrs c of [] \<Rightarrow> None | x # _ \<Rightarrow> x)
      in (r, logEv (EvClose (CloserConn a) r)
               (w\<lparr>netConns := (netConns w)(a := c\<lparr>closeErrs := tl (closeErrs c)\<rparr>)\<rparr>)))"

fun Encode :: "encoder \<Rightarrow> payload \<Rightarrow> world \<Rightarrow> (error option \<times> world) outcome" where
  "Encode (EncSC a) e w =
     (let sc = scs w a in
      if closed sc
      then Returns (Some ErrClosedPipe, logEv (EvEncode (EncSC a) e (Some ErrClosedPipe)) w)
      else if length (C sc) < chanCap
      then Returns (None, logEv (EvEncode (EncSC a) e None)
                            (w\<lparr>scs := (scs w)(a := sc\<lparr>C := C sc @ [e]\<rparr>)\<rparr>))
      else Blocks)"
| "Encode (EncGob a) e w =
     (let c = netConns w a;
          r = (case encodeErrs c of [] \<Rightarrow> None | x # _ \<Rightarrow> x)
      in Returns (r, logEv (EvEncode (EncGob a) e r)
                       (w\<lparr>netConns := (netConns w)(a := c\<lparr>encodeErrs := tl (encodeErrs c)\<rparr>)\<rparr>)))"

text \<open>
  \<open>Decode\<close> returns the error and the payload left in the envelope. A short-circuit whose
  channel is empty and still open has nothing to deliver: the call suspends.
\<close>

fun Decode :: "decoder \<Rightarrow> world \<Rightarrow> (error option \<times> payload \<times> world) outcome" where
  "Decode (DecSC a) w =
     (let sc = scs w a in
      case C sc of
        [] \<Rightarrow> if closed sc then Returns (Some EOF, PNil, logEv (EvDecode (DecSC a) (Some EOF)) w)
              else Blocks
      | v # rest \<Rightarrow>
          (let w' = w\<lparr>scs := (scs w)(a := sc\<lparr>C := rest\<rparr>)\<rparr> in
           if isEOFError v then Returns (Some EOF, PNil, logEv (EvDecode (DecSC a) (Some EOF)) w')
           else Returns (None, v, logEv (EvDecode (DecSC a) None) w')))"
| "Decode (DecDbg a msg) w =
     (let c = netConns w a;
          r = (case incoming c of [] \<Rightarrow> Inl EOF | x # _ \<Rightarrow> x);
          w' = w\<lparr>netConns := (netConns w)(a := c\<lparr>incoming := tl (incoming c)\<rparr>)\<rparr>
      in case r of
           Inl err \<Rightarrow> Returns (Some err, PNil, logEv (EvDecode (DecDbg a msg) (Some err)) w')
         | Inr p \<Rightarrow>
             if isEOFError p then Returns (Some EOF, p, logEv (EvDecode (DecDbg a msg) (Some EOF)) w')
             else Returns (None, p, logEv (EvDecode (DecDbg a msg) None) w'))"

section \<open>The exchange\<close>

datatype exchangeType = exType | gather | scatter | broadcast | partition

text \<open>
  The cursors \<open>encsNext\<close> and \<open>decsNext\<close> are unexported, start at 0 and are only ever
  assigned a remainder modulo a length, so they are natural numbers. \<open>hashRing\<close> is a
  pointer, nil until \<open>init\<close>; a ring is the list of the members added to it.
\<close>

record exchange =
  UID :: string
  Type :: exchangeType
  encs :: "encoder list"
  decs :: "decoder list"
  conns :: "closer list"
  encsNext :: nat
  decsNext :: nat
  hashRing :: "string list option"
  encsByKey :: "string \<rightharpoonup> encoder"
  partitionCol :: int
  inited :: bool

subsection \<open>Close\<close>

fun Close_loop :: "closer list \<Rightarrow> error option \<Rightarrow> world \<Rightarrow> error option \<times> world" where
  "Close_loop [] err w = (err, w)"
| "Close_loop (conn # rest) err w =
     (let (err1, w') = CloseC conn w
      in Close_loop rest (if err1 \<noteq> None then err1 else err) w')"

definition Close :: "exchange \<Rightarrow> world \<Rightarrow> error option \<times> world" where
  "Close ex w = Close_loop (conns ex) None w"

subsection \<open>Send disciplines\<close>

fun encodeAll_loop ::
  "payload \<Rightarrow> encoder list \<Rightarrow> error option \<Rightarrow> world \<Rightarrow> (error option \<times> world) outcome" where
  "encodeAll_loop e [] err w = Returns (err, w)"
| "encodeAll_loop e (enc # rest) err w =
     obind (Encode enc e w) (\<lambda>(err1, w').
       encodeAll_loop e rest (if err1 \<noteq> None then err1 else err) w')"

definition encodeAll :: "payload \<Rightarrow> exchange \<Rightarrow> world \<Rightarrow> (error option \<times> world) outcome" where
  "encodeAll e ex w = encodeAll_loop e (encs ex) None w"

definition encodeNext ::
  "payload \<Rightarrow> exchange \<Rightarrow> world \<Rightarrow> (error option \<times> exchange \<times> world) outcome" where
  "encodeNext e ex w =
     (if length (encs ex) = 0 then Returns (Some ErrClosedPipe, ex, w)
      else
        (let i = (encsNext ex + 1) mod length (encs ex)
         in obind (Encode (encs ex ! i) e w) (\<lambda>(err, w').
              Returns (err, ex\<lparr>encsNext := i\<rparr>, w'))))"

text \<open>
  Modelled from the spec: column access on a dataset, \<^verbatim>\<open>data.At(col).Strings()\<close>. It
  yields the cell of column \<open>col\<close> of every row; a column that a row does not have is an
  index out of range, which panics.
\<close>

definition Strings_At :: "dataset \<Rightarrow> int \<Rightarrow> string list outcome" where
  "Strings_At d col =
     (if col < 0 then Panics
      else if list_all (\<lambda>r. nat col < length r) d then Returns (map (\<lambda>r. r ! nat col) d)
      else Panics)"

text \<open>
  \<^verbatim>\<open>consistent.Get\<close> of the external hash ring: an empty ring has no member for any key,
  otherwise the ring names one of its members.
\<close>

definition ringGet :: "world \<Rightarrow> string list \<Rightarrow> string \<Rightarrow> error + string" where
  "ringGet w ms key =
     (if ms = [] then Inl (ExtError ''empty circle'') else Inr (ringLocate w ms key))"

definition getPartitionEncoder :: "string \<Rightarrow> exchange \<Rightarrow> world \<Rightarrow> (error + encoder) outcome" where
  "getPartitionEncoder key ex w =
     (case hashRing ex of
        None \<Rightarrow> Panics
      | Some ms \<Rightarrow>
          (case ringGet w ms key of
             Inl err \<Rightarrow> Returns (Inl (Errorf (''cannot find a target node: '' @ Error err)))
           | Inr endpoint \<Rightarrow>
               (case encsByKey ex endpoint of
                  None \<Rightarrow> Returns (Inl (Errorf ''no matching node found''))
                | Some enc \<Rightarrow> Returns (Inr enc))))"

text \<open>
  The first loop of \<^verbatim>\<open>encodePartition\<close>. The map \<^verbatim>\<open>dataByEncoder\<close> is an association
  list with one entry per key, in the order in which the keys were first stored.
\<close>

fun partition_group ::
  "dataset \<Rightarrow> (nat \<times> string) list \<Rightarrow> exchange \<Rightarrow> world \<Rightarrow> (encoder \<times> dataset) list
     \<Rightarrow> (error + (encoder \<times> dataset) list) outcome" where
  "partition_group data [] ex w dataByEncoder = Returns (Inr dataByEncoder)"
| "partition_group data ((i, key) # rest) ex w dataByEncoder =
     (case getPartitionEncoder key ex w of
        Panics \<Rightarrow> Panics
      | Blocks \<Rightarrow> Blocks
      | Returns (Inl err) \<Rightarrow> Returns (Inl err)
      | Returns (Inr enc) \<Rightarrow>
          (let d = (case map_of dataByEncoder enc of None \<Rightarrow> NewDataset | Some d0 \<Rightarrow> d0)
           in partition_group data rest ex w
                (AList.update enc (Append d (Slice data i (i + 1))) dataByEncoder)))"

text \<open>
  The order in which \<^verbatim>\<open>range\<close> visits the entries of a map is chosen by the runtime:
  the entries whose key is listed in \<open>mapOrder\<close> come first, in that order, then the others.
  Every permutation of the entries is obtained from some \<open>mapOrder\<close>.
\<close>

definition mapRange :: "world \<Rightarrow> (encoder \<times> dataset) list \<Rightarrow> (encoder \<times> dataset) list" where
  "mapRange w m =
     concat (map (\<lambda>k. filter (\<lambda>p. fst p = k) m) (remdups (mapOrder w)))
     @ filter (\<lambda>p. fst p \<notin> set (mapOrder w)) m"

fun partition_send :: "(encoder \<times> dataset) list \<Rightarrow> world \<Rightarrow> (error option \<times> world) outcome" where
  "partition_send [] w = Returns (None, w)"
| "partition_send ((enc, d) # rest) w =
     obind (Encode enc (PDataset d) w) (\<lambda>(err, w').
       if err \<noteq> None then Returns (err, w') else partition_send rest w')"

definition encodePartition :: "payload \<Rightarrow> exchange \<Rightarrow> world \<Rightarrow> (error option \<times> world) outcome" where
  "encodePartition e ex w =
     (case e of
        PDataset data \<Rightarrow>
          obind (Strings_At data (partitionCol ex)) (\<lambda>ids.
          obind (partition_group data (zip [0..<length ids] ids) ex w []) (\<lambda>r.
            case r of
              Inl err \<Rightarrow> Returns (Some err, w)
            | Inr dataByEncoder \<Rightarrow> partition_send (mapRange w dataByEncoder) w))
      | _ \<Rightarrow> Returns (Some (Errorf ''encodePartition called without a dataset''), w))"

definition send :: "payload \<Rightarrow> exchange \<Rightarrow> world \<Rightarrow> (error option \<times> exchange \<times> world) outcome" where
  "send data ex w =
     (case Type ex of
        scatter \<Rightarrow> encodeNext data ex w
      | partition \<Rightarrow> obind (encodePartition data ex w) (\<lambda>(err, w'). Returns (err, ex, w'))
      | _ \<Rightarrow> obind (encodeAll data ex w) (\<lambda>(err, w'). Returns (err, ex, w')))"

subsection \<open>Receive path\<close>

text \<open>
  \<^verbatim>\<open>decodeNext\<close> returns \<^verbatim>\<open>(nil, err)\<close> or \<^verbatim>\<open>(data, nil)\<close>: a sum. The type assertion
  \<^verbatim>\<open>req.Payload.(Dataset)\<close> has no second result, so it panics on any other payload.
\<close>

function decodeNext :: "exchange \<Rightarrow> world \<Rightarrow> ((error + dataset) \<times> exchange \<times> world) outcome" where
  "decodeNext ex w =
     (if length (decs ex) = 0 then Returns (Inl EOF, ex, w)
      else
        (let i = (decsNext ex + 1) mod length (decs ex) in
         case Decode (decs ex ! i) w of
           Panics \<Rightarrow> Panics
         | Blocks \<Rightarrow> Blocks
         | Returns (err, p, w') \<Rightarrow>
             (case err of
                Some e \<Rightarrow>
                  if e = EOF
                  then decodeNext (ex\<lparr>decs := take i (decs ex) @ drop (i + 1) (decs ex)\<rparr>) w'
                  else Returns (Inl e, ex, w')
              | None \<Rightarrow>
                  (case p of
                     PDataset d \<Rightarrow> Returns (Inr d, ex\<lparr>decsNext := i\<rparr>, w')
                   | _ \<Rightarrow> Panics))))"
  by pat_completeness auto
termination
proof (relation "measure (\<lambda>(ex, w). length (decs ex))", goal_cases)
  case 1
  show ?case by simp
next
  case (2 ex w i r err y p w' e)
  from 2(1) have "0 < length (decs ex)" by simp
  then have "(decsNext ex + 1) mod length (decs ex) < length (decs ex)"
    by (rule mod_less_divisor)
  with 2(2) show ?case by simp
qed

declare decodeNext.simps [simp del]

definition receive :: "exchange \<Rightarrow> world \<Rightarrow> ((error + dataset) \<times> exchange \<times> world) outcome" where
  "receive ex w = decodeNext ex w"

subsection \<open>Initialization\<close>

text \<open>
  The values \<open>init\<close> reads from the context. Each may be absent: a missing distributer is
  reported, a missing node value makes the unchecked type assertion panic. The distributer
  answers \<open>Connect\<close> with an error or with a fresh connection.
\<close>

record ctx =
  distributer :: "(string \<Rightarrow> string \<Rightarrow> error + netConn) option"
  allNodes :: "string list option"
  thisNode :: "string option"
  masterNode :: "string option"

definition Connect ::
  "(string \<Rightarrow> string \<Rightarrow> error + netConn) \<Rightarrow> string \<Rightarrow> string \<Rightarrow> world \<Rightarrow> (error + addr) \<times> world" where
  "Connect dist node uid w =
     (case dist node uid of
        Inl err \<Rightarrow> (Inl err, logEv (EvConnect node uid (Some err)) w)
      | Inr c \<Rightarrow>
          (Inr (nextConn w),
           logEv (EvConnect node uid None)
             (w\<lparr>netConns := (netConns w)(nextConn w := c), nextConn := Suc (nextConn w)\<rparr>)))"

text \<open>\<^verbatim>\<open>ex.hashRing.Add(node)\<close>; the ring is never nil where \<open>init\<close> calls it.\<close>

definition ringAdd :: "string \<Rightarrow> string list option \<Rightarrow> string list option" where
  "ringAdd node ring = (case ring of None \<Rightarrow> None | Some ms \<Rightarrow> Some (ms @ [node]))"

text \<open>The local variables of \<open>init\<close> that its two loops share.\<close>

record initLocals =
  connsMap :: "string \<rightharpoonup> addr"
  shortCircuitL :: "addr option"

definition targetNodes :: "exchange \<Rightarrow> string list \<Rightarrow> string \<Rightarrow> string list" where
  "targetNodes ex allN masterN = (if Type ex = gather then [masterN] else allN)"

fun init_targets ::
  "(string \<Rightarrow> string \<Rightarrow> error + netConn) \<Rightarrow> string \<Rightarrow> string list
     \<Rightarrow> exchange \<Rightarrow> world \<Rightarrow> initLocals \<Rightarrow> error option \<times> exchange \<times> world \<times> initLocals" where
  "init_targets dist thisN [] ex w l = (None, ex, w, l)"
| "init_targets dist thisN (node # rest) ex w l =
     (if node = thisN then
        (let (a, w1) = newShortCircuit w;
             ex1 = ex\<lparr>conns := conns ex @ [CloserSC a],
                      encs := encs ex @ [EncSC a],
                      hashRing := ringAdd node (hashRing ex),
                      encsByKey := (encsByKey ex)(node \<mapsto> EncSC a)\<rparr>
         in init_targets dist thisN rest ex1 w1 (l\<lparr>shortCircuitL := Some a\<rparr>))
      else
        (case Connect dist node (UID ex) w of
           (Inl err, w1) \<Rightarrow> (Some err, ex, w1, l)
         | (Inr a, w1) \<Rightarrow>
             (let ex1 = ex\<lparr>conns := conns ex @ [CloserConn a],
                           encs := encs ex @ [EncGob a],
                           hashRing := ringAdd node (hashRing ex),
                           encsByKey := (encsByKey ex)(node \<mapsto> EncGob a)\<rparr>
              in init_targets dist thisN rest ex1 w1 (l\<lparr>connsMap := (connsMap l)(node \<mapsto> a)\<rparr>))))"

fun init_sources ::
  "(string \<Rightarrow> string \<Rightarrow> error + netConn) \<Rightarrow> string \<Rightarrow> addr \<Rightarrow> initLocals \<Rightarrow> string list
     \<Rightarrow> exchange \<Rightarrow> world \<Rightarrow> error option \<times> exchange \<times> world" where
  "init_sources dist thisN sc l [] ex w = (None, ex, w)"
| "init_sources dist thisN sc l (n # rest) ex w =
     (if n = thisN then
        init_sources dist thisN sc l rest (ex\<lparr>decs := decs ex @ [DecSC sc]\<rparr>) w
      else
        (let msg = ''THIS '' @ thisN @ '' OTHER '' @ n in
         case connsMap l n of
           Some a \<Rightarrow> init_sources dist thisN sc l rest (ex\<lparr>decs := decs ex @ [DecDbg a msg]\<rparr>) w
         | None \<Rightarrow>
             (case Connect dist n (UID ex) w of
                (Inl err, w1) \<Rightarrow> (Some err, ex, w1)
              | (Inr a, w1) \<Rightarrow>
                  init_sources dist thisN sc l rest
                    (ex\<lparr>conns := conns ex @ [CloserConn a],
                        decs := decs ex @ [DecDbg a msg]\<rparr>) w1)))"

text \<open>
  \<open>init\<close>. The deferred function that closes what was opened is registered after the
  distributer check, so it runs on a failed \<open>Connect\<close> only.
\<close>

definition init :: "ctx \<Rightarrow> exchange \<Rightarrow> world \<Rightarrow> (error option \<times> exchange \<times> world) outcome" where
  "init c ex w =
     (let ex0 = ex\<lparr>hashRing := Some [], encsByKey := Map.empty\<rparr> in
      case distributer c of
        None \<Rightarrow> Returns (Some (Errorf ''exhcnage started without a distributer''), ex0, w)
      | Some dist \<Rightarrow>
      (case allNodes c of None \<Rightarrow> Panics | Some allN \<Rightarrow>
      (case thisNode c of None \<Rightarrow> Panics | Some thisN \<Rightarrow>
      (case masterNode c of None \<Rightarrow> Panics | Some masterN \<Rightarrow>
        (case init_targets dist thisN (targetNodes ex0 allN masterN) ex0 w
                \<lparr>connsMap = Map.empty, shortCircuitL = None\<rparr> of
           (Some err, ex1, w1, l) \<Rightarrow> Returns (Some err, ex1, snd (Close ex1 w1))
         | (None, ex1, w1, l) \<Rightarrow>
             (case shortCircuitL l of
                None \<Rightarrow> Returns (None, ex1, w1)
              | Some sc \<Rightarrow>
                  (case init_sources dist thisN sc l allN ex1 w1 of
                     (Some err, ex2, w2) \<Rightarrow> Returns (Some err, ex2, snd (Close ex2 w2))
                   | (None, ex2, w2) \<Rightarrow> Returns (None, ex2, w2))))))))"

subsection \<open>Run\<close>

text \<open>
  \<open>Run\<close> has two tasks, the foreground \<^verbatim>\<open>select\<close> loop and the background receive loop.
  Which one moves next, and which ready case a \<^verbatim>\<open>select\<close> takes, is decided by the
  scheduler; the model takes these decisions as a list. \<open>SelInp\<close> is a value read from the
  input channel (\<open>None\<close> a nil dataset), \<open>SelInpClosed\<close> the input channel found closed,
  \<open>SelErrs\<close> a read from \<^verbatim>\<open>errs\<close>, \<open>SelDone err\<close> the context found done with
  \<^verbatim>\<open>ctx.Err()\<close> equal to \<open>err\<close>, and \<open>BgReceive\<close> one iteration of the receive task.
  A decision that names a case which is not ready is skipped. A foreground call that
  suspends is not resumed: \<open>Run\<close> then never returns. The output channel belongs to the
  caller, whose reader is taken to be ready.
\<close>

datatype schedEvent =
    SelInp "dataset option"
  | SelInpClosed
  | SelErrs
  | SelDone error
  | BgReceive

text \<open>
  The receive task is running, or waits to hand its final value to \<^verbatim>\<open>errs\<close>, or has
  returned and closed \<^verbatim>\<open>errs\<close>.
\<close>

datatype bgTask = Running | Sending "error option" | Finished

record runState =
  rex :: exchange
  rw :: world
  rout :: "dataset list"
  bg :: bgTask
  inpOpen :: bool
  rcvDone :: bool
  sndDone :: bool
  rerr :: "error option"

definition eofMsg :: payload where
  "eofMsg = PError (ErrMsg (Error EOF))"

text \<open>
  One iteration of the receive task. A \<open>receive\<close> that waits on an empty channel has not
  happened yet; a panic in the task ends the program.
\<close>

definition bgStep :: "runState \<Rightarrow> runState outcome" where
  "bgStep st =
     (case bg st of
        Running \<Rightarrow>
          (case receive (rex st) (rw st) of
             Panics \<Rightarrow> Panics
           | Blocks \<Rightarrow> Returns st
           | Returns (Inl recErr, ex', w') \<Rightarrow>
               if recErr = EOF then Returns (st\<lparr>rex := ex', rw := w', bg := Sending None\<rparr>)
               else Returns (st\<lparr>rex := ex', rw := w', bg := Sending (Some recErr)\<rparr>)
           | Returns (Inr data, ex', w') \<Rightarrow>
               Returns (st\<lparr>rex := ex', rw := w', rout := rout st @ [data]\<rparr>))
      | _ \<Rightarrow> Returns st)"

text \<open>
  One iteration of the foreground loop, for the decision \<open>ev\<close>. \<open>Inl\<close> is the
  \<^verbatim>\<open>return nil\<close> inside the loop, \<open>Inr\<close> goes on to the next test of the loop condition.
\<close>

definition Run_select :: "schedEvent \<Rightarrow> runState \<Rightarrow> (runState + runState) outcome" where
  "Run_select ev st =
     (case ev of
        SelInp data \<Rightarrow>
          if inpOpen st then
            obind (send (case data of None \<Rightarrow> PNil | Some d \<Rightarrow> PDataset d) (rex st) (rw st))
              (\<lambda>(err, ex', w'). Returns (Inr (st\<lparr>rex := ex', rw := w', rerr := err\<rparr>)))
          else Returns (Inr st)
      | SelInpClosed \<Rightarrow>
          if inpOpen st then
            obind (encodeAll eofMsg (rex st) (rw st)) (\<lambda>(err, w').
              Returns (Inr (st\<lparr>rw := w', sndDone := True, inpOpen := False\<rparr>)))
          else Returns (Inr st)
      | SelErrs \<Rightarrow>
          (case bg st of
             Sending v \<Rightarrow> Returns (Inr (st\<lparr>rerr := v, rcvDone := True, bg := Finished\<rparr>))
           | Finished \<Rightarrow> Returns (Inr (st\<lparr>rerr := None, rcvDone := True\<rparr>))
           | Running \<Rightarrow> Returns (Inr st))
      | SelDone err \<Rightarrow>
          if err = Canceled then Returns (Inl (st\<lparr>rerr := None\<rparr>))
          else Returns (Inr (st\<lparr>rerr := Some err\<rparr>))
      | BgReceive \<Rightarrow> obind (bgStep st) (\<lambda>st'. Returns (Inr st')))"

definition loopCond :: "runState \<Rightarrow> bool" where
  "loopCond st = (rerr st = None \<and> (\<not> rcvDone st \<or> \<not> sndDone st))"

fun Run_loop :: "schedEvent list \<Rightarrow> runState \<Rightarrow> (runState \<times> schedEvent list) outcome" where
  "Run_loop [] st = (if loopCond st then Blocks else Returns (st, []))"
| "Run_loop (ev # rest) st =
     (if loopCond st then
        (case Run_select ev st of
           Panics \<Rightarrow> Panics
         | Blocks \<Rightarrow> Blocks
         | Returns (Inl st') \<Rightarrow> Returns (st', rest)
         | Returns (Inr st') \<Rightarrow> Run_loop rest st')
      else Returns (st, ev # rest))"

text \<open>
  \<^verbatim>\<open>for range errs\<close>: the foreground waits until the receive task has returned. Only the
  receive task moves; with no decision left while it still runs, the wait never ends.
\<close>

fun drain :: "schedEvent list \<Rightarrow> runState \<Rightarrow> runState outcome" where
  "drain [] st = (if bg st = Running then Blocks else Returns (st\<lparr>bg := Finished\<rparr>))"
| "drain (ev # rest) st =
     (if bg st = Running then
        (if ev = BgReceive then
           (case bgStep st of
              Panics \<Rightarrow> Panics
            | Blocks \<Rightarrow> Blocks
            | Returns st' \<Rightarrow> drain rest st')
         else drain rest st)
      else Returns (st\<lparr>bg := Finished\<rparr>))"

text \<open>The second deferred function of \<open>Run\<close>: the EOF broadcast, then the wait.\<close>

definition Run_finalize :: "schedEvent list \<Rightarrow> runState \<Rightarrow> runState outcome" where
  "Run_finalize evs st =
     (if \<not> sndDone st
      then obind (encodeAll eofMsg (rex st) (rw st)) (\<lambda>(err, w'). drain evs (st\<lparr>rw := w'\<rparr>))
      else drain evs st)"

text \<open>
  \<open>Run\<close> from a state of the foreground loop on: the loop, then the second deferred
  function. The result holds the value left in the named result \<^verbatim>\<open>err\<close>.
\<close>

definition Run_from ::
  "schedEvent list \<Rightarrow> runState \<Rightarrow> (error option \<times> exchange \<times> world \<times> dataset list) outcome" where
  "Run_from evs st =
     obind (Run_loop evs st) (\<lambda>(st1, rest).
     obind (Run_finalize rest st1) (\<lambda>st2.
       Returns (rerr st2, rex st2, rw st2, rout st2)))"

text \<open>The body of \<open>Run\<close> after the run-once check: \<open>init\<close>, then the two tasks.\<close>

definition Run_body ::
  "ctx \<Rightarrow> schedEvent list \<Rightarrow> exchange \<Rightarrow> world
     \<Rightarrow> (error option \<times> exchange \<times> world \<times> dataset list) outcome" where
  "Run_body c sched ex w =
     obind (init c ex w) (\<lambda>(err, ex1, w1).
       if err \<noteq> None then Returns (err, ex1, w1, [])
       else Run_from sched
              \<lparr>rex = ex1, rw = w1, rout = [], bg = Running, inpOpen = True,
               rcvDone = False, sndDone = False, rerr = None\<rparr>)"

text \<open>
  The first deferred function of \<open>Run\<close>: it closes, and the error of \<open>Close\<close> becomes the
  result when the named result is still nil.
\<close>

definition deferClose ::
  "(error option \<times> exchange \<times> world \<times> dataset list) outcome
     \<Rightarrow> (error option \<times> exchange \<times> world \<times> dataset list) outcome" where
  "deferClose r =
     obind r (\<lambda>(err, ex', w', out).
       (let (closeErr, w'') = Close ex' w'
        in Returns (if err = None then closeErr else err, ex', w'', out)))"

definition Run ::
  "ctx \<Rightarrow> schedEvent list \<Rightarrow> exchange \<Rightarrow> world
     \<Rightarrow> (error option \<times> exchange \<times> world \<times> dataset list) outcome" where
  "Run c sched ex w =
     (if inited ex then
        Returns (Some (Errorf ''exhcnage cannot be Run() more than once''), ex, w, [])
      else deferClose (Run_body c sched (ex\<lparr>inited := True\<rparr>) w))"

section \<open>Notions of the specification and sample values\<close>

text \<open>The last error encountered in a sequence of results, nil when there is none.\<close>

fun lastErr :: "error option list \<Rightarrow> error option" where
  "lastErr [] = None"
| "lastErr (r # rs) = (case lastErr rs of None \<Rightarrow> r | Some x \<Rightarrow> Some x)"

text \<open>
  Calling \<open>Encode\<close> on the given encoders with the given envelopes, one call after the
  other in list order, whatever each call returns; the results come back in the same order.
\<close>

fun encodeSeq :: "(encoder \<times> payload) list \<Rightarrow> world \<Rightarrow> (error option list \<times> world) outcome" where
  "encodeSeq [] w = Returns ([], w)"
| "encodeSeq ((enc, e) # rest) w =
     obind (Encode enc e w) (\<lambda>(r, w1).
     obind (encodeSeq rest w1) (\<lambda>(rs, w2). Returns (r # rs, w2)))"


text \<open>A sequence of \<open>send\<close> calls, one per batch, whatever each call returns.\<close>

fun sendSeq ::
  "payload list \<Rightarrow> exchange \<Rightarrow> world \<Rightarrow> (error option list \<times> exchange \<times> world) outcome" where
  "sendSeq [] ex w = Returns ([], ex, w)"
| "sendSeq (b # bs) ex w =
     obind (send b ex w) (\<lambda>(err, ex1, w1).
     obind (sendSeq bs ex1 w1) (\<lambda>(errs, ex2, w2). Returns (err # errs, ex2, w2)))"

text \<open>
  The destination of a key: the node that the hash ring names, then the encoder registered
  for that node; the two descriptive errors when the ring has no member or the node has no
  encoder.
\<close>

definition routeKey :: "exchange \<Rightarrow> world \<Rightarrow> string list \<Rightarrow> string \<Rightarrow> error + encoder" where
  "routeKey ex w ms key =
     (if ms = [] then Inl (Errorf ''cannot find a target node: empty circle'')
      else case encsByKey ex (ringLocate w ms key) of
             None \<Rightarrow> Inl (Errorf ''no matching node found'')
           | Some enc \<Rightarrow> Inr enc)"

text \<open>The right components of a list of sums, and the elements of a list in the order of
  their first occurrence.\<close>

fun rights :: "('a + 'b) list \<Rightarrow> 'b list" where
  "rights [] = []"
| "rights (Inl a # xs) = rights xs"
| "rights (Inr b # xs) = b # rights xs"

definition firstOccs :: "'a list \<Rightarrow> 'a list" where
  "firstOccs xs = rev (remdups (rev xs))"

text \<open>
  The rows of a dataset grouped by destination: one pending dataset per destination, the
  destinations in the order in which they first occur, and in each pending dataset the
  rows of that destination in their input order.
\<close>

definition groupRows :: "(row \<Rightarrow> error + encoder) \<Rightarrow> dataset \<Rightarrow> (encoder \<times> dataset) list" where
  "groupRows route data =
     map (\<lambda>enc. (enc, filter (\<lambda>r. route r = Inr enc) data))
         (firstOccs (rights (map route data)))"

text \<open>
  The destination of a row is the destination of its key, the cell in the partition
  column. The routing error of a dataset is the error of its first row without a
  destination.
\<close>

definition routeRow :: "exchange \<Rightarrow> world \<Rightarrow> string list \<Rightarrow> row \<Rightarrow> error + encoder" where
  "routeRow ex w ms r = routeKey ex w ms (r ! nat (partitionCol ex))"

fun firstRouteError :: "(row \<Rightarrow> error + encoder) \<Rightarrow> dataset \<Rightarrow> error option" where
  "firstRouteError route [] = None"
| "firstRouteError route (r # rs) =
     (case route r of Inl err \<Rightarrow> Some err | Inr enc \<Rightarrow> firstRouteError route rs)"

text \<open>
  The constructors \<^verbatim>\<open>Gather\<close>, \<^verbatim>\<open>Scatter\<close>, \<^verbatim>\<open>Broadcast\<close> and \<^verbatim>\<open>Partition\<close>, with the
  freshly generated identifier as an argument.
\<close>

definition newExchange :: "string \<Rightarrow> exchangeType \<Rightarrow> int \<Rightarrow> exchange" where
  "newExchange uid t col =
     \<lparr>UID = uid, Type = t, encs = [], decs = [], conns = [], encsNext = 0, decsNext = 0,
      hashRing = None, encsByKey = Map.empty, partitionCol = col, inited = False\<rparr>"

definition Gather :: "string \<Rightarrow> exchange" where
  "Gather uid = newExchange uid gather 0"

definition Scatter :: "string \<Rightarrow> exchange" where
  "Scatter uid = newExchange uid scatter 0"

definition Broadcast :: "string \<Rightarrow> exchange" where
  "Broadcast uid = newExchange uid broadcast 0"

definition Partition :: "string \<Rightarrow> int \<Rightarrow> exchange" where
  "Partition uid column = newExchange uid partition column"

text \<open>
  A sample world: connection 0 fails its first \<open>Encode\<close> and its first \<open>Close\<close>,
  connection 1 fails nothing, and connection 2 fails its first \<open>Close\<close> differently.
\<close>

definition quietConn :: netConn where
  "quietConn = \<lparr>encodeErrs = [], incoming = [], closeErrs = []\<rparr>"

definition sampleWorld :: world where
  "sampleWorld =
     \<lparr>scs = (\<lambda>a. \<lparr>C = [], closed = False\<rparr>),
      nextSC = 1,
      netConns = (\<lambda>a. quietConn)
        (0 := \<lparr>encodeErrs = [Some (ExtError ''broken pipe'')], incoming = [],
               closeErrs = [Some (ExtError ''close failed'')]\<rparr>,
         2 := \<lparr>encodeErrs = [], incoming = [],
               closeErrs = [Some (ExtError ''already closed'')]\<rparr>),
      nextConn = 3,
      trace = [],
      ringLocate = (\<lambda>ms key. ms ! (length key mod length ms)),
      mapOrder = []\<rparr>"

definition sampleEx :: exchange where
  "sampleEx =
     (Broadcast ''uid'')\<lparr>encs := [EncGob 0, EncSC 0, EncGob 1],
                          conns := [CloserConn 0, CloserSC 0, CloserConn 2, CloserConn 1]\<rparr>"

text \<open>What a call of \<open>Run\<close> hands back to its caller.\<close>

definition returned :: "(error option \<times> 'a) outcome \<Rightarrow> error option outcome" where
  "returned r = (case r of Returns (err, x) \<Rightarrow> Returns err | Panics \<Rightarrow> Panics | Blocks \<Rightarrow> Blocks)"

text \<open>
  A world in which nothing has happened yet, and a cluster of two nodes seen from node A:
  node B is reached by a connection whose \<open>Close\<close> fails twice, no other node is
  reached. In \<open>sampleCtx3\<close> the cluster has a third node.
\<close>

definition emptyWorld :: world where
  "emptyWorld =
     \<lparr>scs = (\<lambda>a. \<lparr>C = [], closed = False\<rparr>),
      nextSC = 0,
      netConns = (\<lambda>a. quietConn),
      nextConn = 0,
      trace = [],
      ringLocate = (\<lambda>ms key. ms ! (length key mod length ms)),
      mapOrder = []\<rparr>"

definition sampleDist :: "string \<Rightarrow> string \<Rightarrow> error + netConn" where
  "sampleDist node uid =
     (if node = ''B''
      then Inr \<lparr>encodeErrs = [], incoming = [],
                closeErrs = [Some (ExtError ''close failed''),
                             Some (ExtError ''close failed again'')]\<rparr>
      else Inl (ExtError ''unreachable''))"

definition sampleCtx :: ctx where
  "sampleCtx =
     \<lparr>distributer = Some sampleDist, allNodes = Some [''A'', ''B''],
      thisNode = Some ''A'', masterNode = Some ''A''\<rparr>"

definition sampleCtx3 :: ctx where
  "sampleCtx3 = sampleCtx\<lparr>allNodes := Some [''A'', ''B'', ''C'']\<rparr>"


text \<open>The same cluster of two nodes when nothing fails, and when no distributer is given.\<close>

definition quietCtx :: ctx where
  "quietCtx = sampleCtx\<lparr>distributer := Some (\<lambda>node uid. Inr quietConn)\<rparr>"

definition noDistCtx :: ctx where
  "noDistCtx = sampleCtx\<lparr>distributer := None\<rparr>"

text \<open>A scatter exchange over the three encoders of \<open>sampleEx\<close>, its cursor at the start.\<close>

definition sampleScatter :: exchange where
  "sampleScatter = (Scatter ''uid'')\<lparr>encs := [EncGob 0, EncSC 0, EncGob 1]\<rparr>"

text \<open>
  A world with data to receive. Connection 0 delivers an envelope whose payload is an error
  other than the EOF sentinel, connection 1 a dataset and then the EOF sentinel,
  connection 2 a transport error, connection 4 the EOF sentinel and then a dataset, every
  other connection is at its end. Short-circuit 0
  holds an envelope that carries neither a dataset nor an error, short-circuit 2 is open
  and empty, every other short-circuit is closed and empty.
\<close>

definition recvWorld :: world where
  "recvWorld =
     \<lparr>scs = (\<lambda>a. \<lparr>C = [], closed = True\<rparr>)
        (0 := \<lparr>C = [POther ''x''], closed = False\<rparr>,
         2 := \<lparr>C = [], closed = False\<rparr>),
      nextSC = 3,
      netConns = (\<lambda>a. quietConn)
        (0 := \<lparr>encodeErrs = [], incoming = [Inr (PError (ErrMsg ''boom''))], closeErrs = []\<rparr>,
         1 := \<lparr>encodeErrs = [], incoming = [Inr (PDataset [[''a'']]), Inr eofMsg],
               closeErrs = []\<rparr>,
         2 := \<lparr>encodeErrs = [], incoming = [Inl (ExtError ''reset'')], closeErrs = []\<rparr>,
         4 := \<lparr>encodeErrs = [], incoming = [Inr eofMsg, Inr (PDataset [[''late'']])],
               closeErrs = []\<rparr>),
      nextConn = 5,
      trace = [],
      ringLocate = (\<lambda>ms key. ms ! (length key mod length ms)),
      mapOrder = []\<rparr>"

definition recvEx :: "decoder list \<Rightarrow> exchange" where
  "recvEx ds = (Broadcast ''uid'')\<lparr>decs := ds\<rparr>"

text \<open>The quiet cluster seen from node B, which is not the master.\<close>

definition quietCtxB :: ctx where
  "quietCtxB = quietCtx\<lparr>thisNode := Some ''B''\<rparr>"

text \<open>
  A partition exchange on column 0 over two nodes: A is reached by short-circuit 0 and B by
  connection 1. With \<open>ringLocate\<close> of the sample worlds a key of even length belongs to A
  and a key of odd length to B.
\<close>

definition samplePartition :: exchange where
  "samplePartition =
     (Partition ''uid'' 0)\<lparr>encs := [EncSC 0, EncGob 1],
                             hashRing := Some [''A'', ''B''],
                             encsByKey := [''A'' \<mapsto> EncSC 0, ''B'' \<mapsto> EncGob 1]\<rparr>"

definition sampleData :: dataset where
  "sampleData = [[''k1'', ''x''], [''k22'', ''y''], [''k1'', ''z'']]"

text \<open>
  A world in which connection 1 fails its first \<open>Encode\<close> and the runtime starts the
  iteration of a map at the encoder of that connection.
\<close>

definition brokenWorld :: world where
  "brokenWorld =
     emptyWorld\<lparr>netConns := (\<lambda>a. quietConn)
                    (1 := \<lparr>encodeErrs = [Some (ExtError ''broken pipe'')], incoming = [],
                           closeErrs = []\<rparr>),
                 mapOrder := [EncGob 1]\<rparr>"

section \<open>Auxiliary facts and evaluation rules\<close>

lemma case_option_id [simp]: "(case x of None \<Rightarrow> None | Some y \<Rightarrow> Some y) = x"
  by (cases x) simp_all

lemma obind_Returns:
  "obind m f = Returns y \<Longrightarrow> \<exists>x. m = Returns x \<and> f x = Returns y"
  by (cases m) simp_all

lemmas run_eval =
  Run_def deferClose_def Run_body_def Run_from_def Run_select_def Run_finalize_def loopCond_def
  bgStep_def receive_def decodeNext.simps init_def targetNodes_def Connect_def ringAdd_def
  newShortCircuit_def encodeAll_def encodeNext_def send_def Close_def eofMsg_def isEOFError_def
  logEv_def chanCap_def returned_def Let_def
  Scatter_def Gather_def Broadcast_def Partition_def newExchange_def
  sampleCtx_def sampleCtx3_def quietCtx_def noDistCtx_def sampleDist_def emptyWorld_def
  quietConn_def


section \<open>Fan-out to every encoder\<close>

lemma encodeAll_loop_seq:
  "encodeAll_loop e es err w
     = obind (encodeSeq (map (\<lambda>enc. (enc, e)) es) w)
         (\<lambda>(rs, w'). Returns (case lastErr rs of None \<Rightarrow> err | Some x \<Rightarrow> Some x, w'))"
proof (induction es arbitrary: err w)
  case Nil
  show ?case by simp
next
  case (Cons enc es)
  show ?case
  proof (cases "Encode enc e w")
    case (Returns x)
    obtain err1 w1 where x: "x = (err1, w1)" by (cases x)
    show ?thesis
    proof (cases "encodeSeq (map (\<lambda>enc. (enc, e)) es) w1")
      case R2: (Returns y)
      obtain rs w2 where y: "y = (rs, w2)" by (cases y)
      show ?thesis
        using Returns x R2 y Cons.IH [of "if err1 \<noteq> None then err1 else err" w1]
        by (auto split: option.splits)
    next
      case Panics
      with Returns x Cons.IH [of "if err1 \<noteq> None then err1 else err" w1]
      show ?thesis by simp
    next
      case Blocks
      with Returns x Cons.IH [of "if err1 \<noteq> None then err1 else err" w1]
      show ?thesis by simp
    qed
  next
    case Panics
    then show ?thesis by simp
  next
    case Blocks
    then show ?thesis by simp
  qed
qed

lemma encodeSeq_length:
  "encodeSeq ps w = Returns (rs, w') \<Longrightarrow> length rs = length ps"
proof (induction ps arbitrary: w rs w')
  case Nil
  then show ?case by simp
next
  case (Cons p ps)
  obtain enc e where p: "p = (enc, e)" by (cases p)
  from Cons.prems p obtain r w1 where E: "Encode enc e w = Returns (r, w1)"
    by (cases "Encode enc e w") auto
  with Cons.prems p obtain rs1 w2 where S: "encodeSeq ps w1 = Returns (rs1, w2)"
    by (cases "encodeSeq ps w1") auto
  from Cons.prems p E S have "rs = r # rs1" by simp
  with Cons.IH [OF S] show ?case by simp
qed

lemma Encode_trace:
  "Encode enc e w = Returns (r, w1) \<Longrightarrow> trace w1 = trace w @ [EvEncode enc e r]"
  by (cases enc) (auto simp: logEv_def Let_def split: if_splits)

lemma encodeSeq_trace:
  "encodeSeq ps w = Returns (rs, w') \<Longrightarrow>
     trace w' = trace w @ map (\<lambda>((enc, e), r). EvEncode enc e r) (zip ps rs)"
proof (induction ps arbitrary: w rs w')
  case Nil
  then show ?case by simp
next
  case (Cons p ps)
  obtain enc e where p: "p = (enc, e)" by (cases p)
  from Cons.prems p obtain r w1 where E: "Encode enc e w = Returns (r, w1)"
    by (cases "Encode enc e w") auto
  with Cons.prems p obtain rs1 w2 where S: "encodeSeq ps w1 = Returns (rs1, w2)"
    by (cases "encodeSeq ps w1") auto
  from Cons.prems p E S have "rs = r # rs1" "w' = w2" by simp_all
  with Cons.IH [OF S] Encode_trace [OF E] p show ?case by simp
qed

lemma Encode_room:
  "\<forall>a. length (C (scs w a)) < chanCap \<Longrightarrow> \<exists>r w1. Encode enc e w = Returns (r, w1)"
  by (cases enc) (auto simp: Let_def)

lemma Encode_grows:
  "Encode enc e w = Returns (r, w1) \<Longrightarrow> length (C (scs w1 a)) \<le> Suc (length (C (scs w a)))"
  by (cases enc) (auto simp: logEv_def Let_def split: if_splits)

lemma encodeSeq_returns:
  "\<forall>a. length (C (scs w a)) + length ps \<le> chanCap \<Longrightarrow> \<exists>rs w'. encodeSeq ps w = Returns (rs, w')"
proof (induction ps arbitrary: w)
  case Nil
  show ?case by simp
next
  case (Cons p ps)
  obtain enc e where p: "p = (enc, e)" by (cases p)
  have "\<forall>a. length (C (scs w a)) < chanCap"
  proof
    fix a
    from Cons.prems [rule_format, of a] show "length (C (scs w a)) < chanCap" by simp
  qed
  from Encode_room [OF this] obtain r w1 where E: "Encode enc e w = Returns (r, w1)" by blast
  have "\<forall>a. length (C (scs w1 a)) + length ps \<le> chanCap"
  proof
    fix a
    from Encode_grows [OF E, of a] Cons.prems [rule_format, of a]
    show "length (C (scs w1 a)) + length ps \<le> chanCap" by simp
  qed
  from Cons.IH [OF this] obtain rs w' where "encodeSeq ps w1 = Returns (rs, w')" by blast
  with E p show ?case by simp
qed

text \<open>
  C6. \<open>encodeAll\<close> is the fan-out of gather and broadcast sends and of the EOF broadcast.
  It calls \<open>Encode\<close> with the envelope on every encoder, in list order, going on after a
  failed call, and returns the last error that a call returned: it equals the sequence of
  the real calls with the last error taken from their results. The sequence has one result
  per encoder and leaves the calls in the trace in list order; it returns whenever no
  short-circuit queue can fill up. Every \<open>send\<close> of an exchange that is neither scatter
  nor partition, the input-closed case of the loop and the deferred broadcast are this
  fan-out, the last two with the EOF sentinel as envelope.
\<close>

theorem encodeAll_fanout:
  "encodeAll e ex w
     = obind (encodeSeq (map (\<lambda>enc. (enc, e)) (encs ex)) w) (\<lambda>(rs, w'). Returns (lastErr rs, w'))
   \<and> (\<forall>rs w'. encodeSeq (map (\<lambda>enc. (enc, e)) (encs ex)) w = Returns (rs, w') \<longrightarrow>
         length rs = length (encs ex)
         \<and> trace w' = trace w @ map (\<lambda>(enc, r). EvEncode enc e r) (zip (encs ex) rs))
   \<and> ((\<forall>a. length (C (scs w a)) + length (encs ex) \<le> chanCap) \<longrightarrow>
         (\<exists>rs w'. encodeSeq (map (\<lambda>enc. (enc, e)) (encs ex)) w = Returns (rs, w')))
   \<and> (Type ex \<noteq> scatter \<and> Type ex \<noteq> partition \<longrightarrow>
         send e ex w = obind (encodeAll e ex w) (\<lambda>(err, w'). Returns (err, ex, w')))
   \<and> (inpOpen st \<longrightarrow>
         Run_select SelInpClosed st
           = obind (encodeAll eofMsg (rex st) (rw st)) (\<lambda>(err, w').
               Returns (Inr (st\<lparr>rw := w', sndDone := True, inpOpen := False\<rparr>))))
   \<and> (\<not> sndDone st \<longrightarrow>
         Run_finalize evs st
           = obind (encodeAll eofMsg (rex st) (rw st)) (\<lambda>(err, w'). drain evs (st\<lparr>rw := w'\<rparr>)))
   \<and> isEOFError eofMsg"
proof (intro conjI allI impI)
  show "encodeAll e ex w
     = obind (encodeSeq (map (\<lambda>enc. (enc, e)) (encs ex)) w) (\<lambda>(rs, w'). Returns (lastErr rs, w'))"
    using encodeAll_loop_seq [of e "encs ex" None w] by (simp add: encodeAll_def)
next
  fix rs w'
  assume A: "encodeSeq (map (\<lambda>enc. (enc, e)) (encs ex)) w = Returns (rs, w')"
  from encodeSeq_length [OF A] show "length rs = length (encs ex)" by simp
  from encodeSeq_trace [OF A]
  show "trace w' = trace w @ map (\<lambda>(enc, r). EvEncode enc e r) (zip (encs ex) rs)"
    by (simp add: zip_map1 case_prod_unfold)
next
  assume "\<forall>a. length (C (scs w a)) + length (encs ex) \<le> chanCap"
  then show "\<exists>rs w'. encodeSeq (map (\<lambda>enc. (enc, e)) (encs ex)) w = Returns (rs, w')"
    using encodeSeq_returns [of w "map (\<lambda>enc. (enc, e)) (encs ex)"] by simp
next
  assume "Type ex \<noteq> scatter \<and> Type ex \<noteq> partition"
  then show "send e ex w = obind (encodeAll e ex w) (\<lambda>(err, w'). Returns (err, ex, w'))"
    by (cases "Type ex") (simp_all add: send_def)
next
  assume "inpOpen st"
  then show "Run_select SelInpClosed st
           = obind (encodeAll eofMsg (rex st) (rw st)) (\<lambda>(err, w').
               Returns (Inr (st\<lparr>rw := w', sndDone := True, inpOpen := False\<rparr>)))"
    by (simp add: Run_select_def)
next
  assume "\<not> sndDone st"
  then show "Run_finalize evs st
           = obind (encodeAll eofMsg (rex st) (rw st)) (\<lambda>(err, w'). drain evs (st\<lparr>rw := w'\<rparr>))"
    by (simp add: Run_finalize_def)
next
  show "isEOFError eofMsg" by (simp add: isEOFError_def eofMsg_def)
qed

theorem encodeAll_fanout_witness:
  "(\<forall>a. length (C (scs sampleWorld a)) + length (encs sampleEx) \<le> chanCap)
   \<and> Type sampleEx \<noteq> scatter \<and> Type sampleEx \<noteq> partition
   \<and> returned (encodeAll eofMsg sampleEx sampleWorld) = Returns (Some (ExtError ''broken pipe''))
   \<and> (case encodeAll eofMsg sampleEx sampleWorld of
         Returns (err, w') \<Rightarrow>
           C (scs w' 0) = [eofMsg]
           \<and> trace w' = [EvEncode (EncGob 0) eofMsg (Some (ExtError ''broken pipe'')),
                          EvEncode (EncSC 0) eofMsg None,
                          EvEncode (EncGob 1) eofMsg None]
       | Panics \<Rightarrow> False | Blocks \<Rightarrow> False)
   \<and> returned (send eofMsg sampleEx sampleWorld) = Returns (Some (ExtError ''broken pipe''))"
proof -
  have E: "encodeAll eofMsg sampleEx sampleWorld
     = obind (encodeSeq (map (\<lambda>enc. (enc, eofMsg)) (encs sampleEx)) sampleWorld)
         (\<lambda>(rs, w'). Returns (lastErr rs, w'))"
    using encodeAll_fanout [of eofMsg sampleEx sampleWorld] by blast
  have T: "Type sampleEx \<noteq> scatter \<and> Type sampleEx \<noteq> partition"
    by (simp add: sampleEx_def Broadcast_def newExchange_def)
  have S: "send eofMsg sampleEx sampleWorld
     = obind (encodeAll eofMsg sampleEx sampleWorld) (\<lambda>(err, w'). Returns (err, sampleEx, w'))"
    using encodeAll_fanout [of eofMsg sampleEx sampleWorld] T by blast
  show ?thesis
    unfolding S E
    by (simp add: sampleEx_def sampleWorld_def Broadcast_def newExchange_def quietConn_def
                  chanCap_def logEv_def returned_def Let_def)
qed

section \<open>Close, and the error Run returns\<close>












section \<open>The run-once flag\<close>

lemma init_targets_inited:
  "init_targets d t ns ex w l = (e, ex', w', l') \<Longrightarrow> inited ex' = inited ex"
proof (induction ns arbitrary: ex w l)
  case Nil
  then show ?case by simp
next
  case (Cons n ns)
  then show ?case
    by (auto simp: Let_def split: if_splits prod.splits sum.splits)
qed

lemma init_sources_inited:
  "init_sources d t sc l ns ex w = (e, ex', w') \<Longrightarrow> inited ex' = inited ex"
proof (induction ns arbitrary: ex w)
  case Nil
  then show ?case by simp
next
  case (Cons n ns)
  then show ?case
    by (auto simp: Let_def split: if_splits prod.splits sum.splits option.splits)
qed

lemma init_inited:
  "init c ex w = Returns (e, ex', w') \<Longrightarrow> inited ex' = inited ex"
  by (auto simp: init_def Let_def split: option.splits prod.splits
           dest!: init_targets_inited init_sources_inited)

lemma decodeNext_inited:
  "decodeNext ex w = Returns (r, ex', w') \<Longrightarrow> inited ex' = inited ex"
proof (induction ex w rule: decodeNext.induct)
  case (1 ex w)
  show ?case
  proof (cases "length (decs ex) = 0")
    case True
    with "1.prems" show ?thesis by (simp add: decodeNext.simps)
  next
    case False
    let ?i = "(decsNext ex + 1) mod length (decs ex)"
    show ?thesis
    proof (cases "Decode (decs ex ! ?i) w")
      case (Returns x)
      obtain err p w1 where x: "x = (err, p, w1)" by (cases x)
      show ?thesis
      proof (cases err)
        case None
        with "1.prems" False Returns x show ?thesis
          by (auto simp: decodeNext.simps [of ex w] Let_def split: payload.splits)
      next
        case (Some e)
        show ?thesis
        proof (cases "e = EOF")
          case True
          let ?ex1 = "ex\<lparr>decs := take ?i (decs ex) @ drop (?i + 1) (decs ex)\<rparr>"
          from "1.prems" False Returns x Some True
          have "decodeNext ?ex1 w1 = Returns (r, ex', w')"
            by (simp add: decodeNext.simps [of ex w] Let_def)
          from "1.IH" [OF False refl Returns x [symmetric] refl Some True this]
          show ?thesis by simp
        next
          case neq: False
          with "1.prems" False Returns x Some show ?thesis
            by (simp add: decodeNext.simps [of ex w] Let_def)
        qed
      qed
    next
      case Panics
      with "1.prems" False show ?thesis by (simp add: decodeNext.simps [of ex w] Let_def)
    next
      case Blocks
      with "1.prems" False show ?thesis by (simp add: decodeNext.simps [of ex w] Let_def)
    qed
  qed
qed

lemma send_inited:
  "send b ex w = Returns (e, ex', w') \<Longrightarrow> inited ex' = inited ex"
  by (cases "Type ex")
     (auto simp: send_def encodeNext_def Let_def split: if_splits prod.splits dest!: obind_Returns)

lemma bgStep_inited:
  "bgStep st = Returns st' \<Longrightarrow> inited (rex st') = inited (rex st)"
  by (auto simp: bgStep_def receive_def split: bgTask.splits outcome.splits prod.splits sum.splits if_splits
           dest: decodeNext_inited)

lemma Run_select_inited:
  "Run_select ev st = Returns x \<Longrightarrow>
     inited (rex (case x of Inl s \<Rightarrow> s | Inr s \<Rightarrow> s)) = inited (rex st)"
  by (cases ev)
     (auto simp: Run_select_def split: if_splits bgTask.splits prod.splits
           dest!: obind_Returns dest: send_inited bgStep_inited)

lemma Run_loop_inited:
  "Run_loop evs st = Returns (st', rest) \<Longrightarrow> inited (rex st') = inited (rex st)"
proof (induction evs arbitrary: st)
  case Nil
  then show ?case by (simp split: if_splits)
next
  case (Cons ev evs)
  show ?case
  proof (cases "loopCond st")
    case False
    with Cons.prems show ?thesis by simp
  next
    case True
    show ?thesis
    proof (cases "Run_select ev st")
      case (Returns x)
      show ?thesis
      proof (cases x)
        case (Inl s)
        with Returns True Cons.prems Run_select_inited [OF Returns] show ?thesis by simp
      next
        case (Inr s)
        with Returns True Cons.prems have "Run_loop evs s = Returns (st', rest)" by simp
        from Cons.IH [OF this] Run_select_inited [OF Returns] Inr show ?thesis by simp
      qed
    next
      case Panics
      with True Cons.prems show ?thesis by simp
    next
      case Blocks
      with True Cons.prems show ?thesis by simp
    qed
  qed
qed

lemma drain_inited:
  "drain evs st = Returns st' \<Longrightarrow> inited (rex st') = inited (rex st)"
proof (induction evs arbitrary: st)
  case Nil
  then show ?case by (auto split: if_splits)
next
  case (Cons ev evs)
  show ?case
  proof (cases "bg st = Running \<and> ev = BgReceive")
    case False
    with Cons show ?thesis by (auto split: if_splits)
  next
    case True
    with Cons.prems show ?thesis
      by (cases "bgStep st") (auto dest: bgStep_inited Cons.IH)
  qed
qed

lemma Run_finalize_inited:
  "Run_finalize evs st = Returns st' \<Longrightarrow> inited (rex st') = inited (rex st)"
  by (auto simp: Run_finalize_def dest!: obind_Returns dest: drain_inited split: if_splits)

lemma Run_from_inited:
  "Run_from evs st = Returns (e, ex', w', out) \<Longrightarrow> inited ex' = inited (rex st)"
  by (auto simp: Run_from_def dest!: obind_Returns dest: Run_loop_inited Run_finalize_inited)

lemma Run_body_inited:
  "Run_body c sched ex w = Returns (e, ex', w', out) \<Longrightarrow> inited ex' = inited ex"
proof -
  assume A: "Run_body c sched ex w = Returns (e, ex', w', out)"
  then obtain err ex1 w1 where I: "init c ex w = Returns (err, ex1, w1)"
    by (cases "init c ex w") (auto simp: Run_body_def)
  show ?thesis
  proof (cases err)
    case (Some x)
    with A I init_inited [OF I] show ?thesis by (simp add: Run_body_def)
  next
    case None
    with A I have "Run_from sched \<lparr>rex = ex1, rw = w1, rout = [], bg = Running, inpOpen = True,
               rcvDone = False, sndDone = False, rerr = None\<rparr> = Returns (e, ex', w', out)"
      by (simp add: Run_body_def)
    from Run_from_inited [OF this] init_inited [OF I] show ?thesis by simp
  qed
qed

lemma deferClose_Returns:
  "deferClose r = Returns (e, ex', w', out) \<Longrightarrow> \<exists>e0 w0. r = Returns (e0, ex', w0, out)"
  by (auto simp: deferClose_def dest!: obind_Returns split: prod.splits)

text \<open>
  C1. \<open>Run\<close> on an exchange that has already been run returns the cannot-run-twice error
  at once: the exchange and the world, with its trace of calls, are left as they were and
  nothing is written to the output.
\<close>

theorem Run_twice_rejected:
  "inited ex \<Longrightarrow>
     Run c sched ex w = Returns (Some (Errorf ''exhcnage cannot be Run() more than once''), ex, w, [])"
  by (simp add: Run_def)

theorem Run_twice_rejected_witness:
  "inited (sampleEx\<lparr>inited := True\<rparr>)
   \<and> Run sampleCtx [SelInpClosed] (sampleEx\<lparr>inited := True\<rparr>) sampleWorld
       = Returns (Some (Errorf ''exhcnage cannot be Run() more than once''),
                  sampleEx\<lparr>inited := True\<rparr>, sampleWorld, [])"
  using Run_twice_rejected [of "sampleEx\<lparr>inited := True\<rparr>" sampleCtx "[SelInpClosed]" sampleWorld]
  by simp

text \<open>
  C9. The flag \<open>inited\<close> is set before \<open>init\<close> is called and nothing resets it: whenever
  \<open>Run\<close> returns, with whatever result, the exchange it leaves has the flag set and every
  later \<open>Run\<close> on it returns the cannot-run-twice error. This includes the run that fails
  for a missing distributer and the run whose \<open>init\<close> fails.
\<close>

theorem Run_once_flag:
  "(Run c sched ex w = Returns (r, ex', w', out) \<longrightarrow>
      inited ex' \<and>
      Run c2 sched2 ex' w2
        = Returns (Some (Errorf ''exhcnage cannot be Run() more than once''), ex', w2, []))
   \<and> (\<not> inited ex \<longrightarrow>
        Run c sched ex w = deferClose (Run_body c sched (ex\<lparr>inited := True\<rparr>) w))
   \<and> (\<not> inited ex \<longrightarrow> distributer c = None \<longrightarrow>
        Run c sched ex w
          = Returns (Some (Errorf ''exhcnage started without a distributer''),
                     ex\<lparr>inited := True, hashRing := Some [], encsByKey := Map.empty\<rparr>,
                     snd (Close ex w), []))
   \<and> (\<not> inited ex \<longrightarrow> init c (ex\<lparr>inited := True\<rparr>) w = Returns (Some e, ex1, w1) \<longrightarrow>
        inited ex1 \<and> Run c sched ex w = Returns (Some e, ex1, snd (Close ex1 w1), []))"
proof (intro conjI impI)
  assume A: "Run c sched ex w = Returns (r, ex', w', out)"
  show I: "inited ex'"
  proof (cases "inited ex")
    case True
    with A show ?thesis by (simp add: Run_def)
  next
    case False
    with A have "deferClose (Run_body c sched (ex\<lparr>inited := True\<rparr>) w) = Returns (r, ex', w', out)"
      by (simp add: Run_def)
    from deferClose_Returns [OF this] obtain e0 w0 where
      "Run_body c sched (ex\<lparr>inited := True\<rparr>) w = Returns (e0, ex', w0, out)" by blast
    from Run_body_inited [OF this] show ?thesis by simp
  qed
  show "Run c2 sched2 ex' w2
        = Returns (Some (Errorf ''exhcnage cannot be Run() more than once''), ex', w2, [])"
    using I by (simp add: Run_def)
next
  assume "\<not> inited ex"
  then show "Run c sched ex w = deferClose (Run_body c sched (ex\<lparr>inited := True\<rparr>) w)"
    by (simp add: Run_def)
next
  assume "\<not> inited ex" "distributer c = None"
  then show "Run c sched ex w
          = Returns (Some (Errorf ''exhcnage started without a distributer''),
                     ex\<lparr>inited := True, hashRing := Some [], encsByKey := Map.empty\<rparr>,
                     snd (Close ex w), [])"
    by (simp add: Run_def deferClose_def Run_body_def init_def Close_def split: prod.splits)
next
  assume A: "\<not> inited ex" "init c (ex\<lparr>inited := True\<rparr>) w = Returns (Some e, ex1, w1)"
  from init_inited [OF A(2)] show "inited ex1" by simp
  from A show "Run c sched ex w = Returns (Some e, ex1, snd (Close ex1 w1), [])"
    by (simp add: Run_def deferClose_def Run_body_def split: prod.splits)
qed

theorem Run_once_flag_witness:
  "\<not> inited (Gather ''uid'') \<and> distributer noDistCtx = None
   \<and> Run noDistCtx [] (Gather ''uid'') emptyWorld
       = Returns (Some (Errorf ''exhcnage started without a distributer''),
                  (Gather ''uid'')\<lparr>inited := True, hashRing := Some [], encsByKey := Map.empty\<rparr>,
                  emptyWorld, [])
   \<and> Run quietCtx [SelInpClosed]
         ((Gather ''uid'')\<lparr>inited := True, hashRing := Some [], encsByKey := Map.empty\<rparr>) emptyWorld
       = Returns (Some (Errorf ''exhcnage cannot be Run() more than once''),
                  (Gather ''uid'')\<lparr>inited := True, hashRing := Some [], encsByKey := Map.empty\<rparr>,
                  emptyWorld, [])
   \<and> (\<exists>ex' w'. Run sampleCtx3 [] (Scatter ''uid'') emptyWorld
                   = Returns (Some (ExtError ''unreachable''), ex', w', [])
        \<and> inited ex'
        \<and> Run quietCtx [SelInpClosed] ex' w'
            = Returns (Some (Errorf ''exhcnage cannot be Run() more than once''), ex', w', []))"
proof -
  have N: "\<not> inited (Gather ''uid'')" by (simp add: Gather_def newExchange_def)
  have D: "distributer noDistCtx = None" by (simp add: noDistCtx_def)
  have W: "snd (Close (Gather ''uid'') emptyWorld) = emptyWorld"
    by (simp add: Close_def Gather_def newExchange_def)
  have R1: "Run noDistCtx [] (Gather ''uid'') emptyWorld
       = Returns (Some (Errorf ''exhcnage started without a distributer''),
                  (Gather ''uid'')\<lparr>inited := True, hashRing := Some [], encsByKey := Map.empty\<rparr>,
                  emptyWorld, [])"
  proof -
    have "Run noDistCtx [] (Gather ''uid'') emptyWorld
       = Returns (Some (Errorf ''exhcnage started without a distributer''),
                  (Gather ''uid'')\<lparr>inited := True, hashRing := Some [], encsByKey := Map.empty\<rparr>,
                  snd (Close (Gather ''uid'') emptyWorld), [])"
      using Run_once_flag [of noDistCtx "[]" "Gather ''uid''" emptyWorld] N D by blast
    then show ?thesis by (simp only: W)
  qed
  have R2: "Run quietCtx [SelInpClosed]
         ((Gather ''uid'')\<lparr>inited := True, hashRing := Some [], encsByKey := Map.empty\<rparr>) emptyWorld
       = Returns (Some (Errorf ''exhcnage cannot be Run() more than once''),
                  (Gather ''uid'')\<lparr>inited := True, hashRing := Some [], encsByKey := Map.empty\<rparr>,
                  emptyWorld, [])"
    using Run_once_flag [of noDistCtx "[]" "Gather ''uid''" emptyWorld _ _ _ _ quietCtx "[SelInpClosed]" emptyWorld] R1
    by blast
  obtain ex' w' where R3: "Run sampleCtx3 [] (Scatter ''uid'') emptyWorld
                   = Returns (Some (ExtError ''unreachable''), ex', w', [])"
    by (simp add: run_eval)
  from Run_once_flag [of sampleCtx3 "[]" "Scatter ''uid''" emptyWorld _ ex' w' _ quietCtx "[SelInpClosed]" w'] R3
  have "inited ex' \<and> Run quietCtx [SelInpClosed] ex' w'
            = Returns (Some (Errorf ''exhcnage cannot be Run() more than once''), ex', w', [])"
    by blast
  with N D R1 R2 R3 show ?thesis by blast
qed

section \<open>The context is done\<close>







section \<open>Scatter: the round-robin cursor\<close>

lemma mod_shift:
  fixes x k N :: nat
  assumes "x < N" "0 < k" "k < N"
  shows "((x + (N - k)) mod N = 0) = (x = k)"
proof (cases "x + (N - k) < N")
  case True
  then show ?thesis using assms by simp
next
  case False
  then have "(x + (N - k)) mod N = (x + (N - k) - N) mod N"
    by (simp add: le_mod_geq)
  also have "x + (N - k) - N = x - k" using assms False by simp
  also have "(x - k) mod N = x - k" using assms by simp
  finally show ?thesis using assms False by auto
qed

lemma count_formula:
  assumes "0 < N" "k < N"
  shows "length (filter (\<lambda>j. Suc j mod N = k) [0..<B])
         = (if k = 0 then B div N else (B + (N - k)) div N)"
proof (induction B)
  case 0
  then show ?case using assms by simp
next
  case (Suc B)
  show ?case
  proof (cases "k = 0")
    case True
    then show ?thesis using Suc assms by (simp add: div_Suc)
  next
    case False
    have "Suc (B + (N - k)) mod N = (Suc B mod N + (N - k)) mod N"
      by (simp add: mod_simps)
    moreover have "Suc B mod N < N" using assms by simp
    ultimately have "(Suc (B + (N - k)) mod N = 0) = (Suc B mod N = k)"
      using mod_shift [of "Suc B mod N" N k] assms False by simp
    then show ?thesis using Suc False assms by (simp add: div_Suc)
  qed
qed

lemma count_bounds:
  assumes "0 < N" "k < N"
  shows "length (filter (\<lambda>j. Suc j mod N = k) [0..<B]) = B div N
       \<or> length (filter (\<lambda>j. Suc j mod N = k) [0..<B]) = (B + N - 1) div N"
proof (cases "k = 0")
  case True
  then show ?thesis using count_formula [OF assms, of B] by simp
next
  case False
  let ?c = "(B + (N - k)) div N"
  have c: "length (filter (\<lambda>j. Suc j mod N = k) [0..<B]) = ?c"
    using count_formula [OF assms, of B] False by simp
  have lo: "B div N \<le> ?c" by (rule div_le_mono) simp
  have hi: "?c \<le> (B + N - 1) div N" by (rule div_le_mono) (use False assms in simp)
  have "(B + N - 1) div N \<le> B div N + 1"
  proof -
    have "(B + N - 1) div N \<le> (B + N) div N" by (rule div_le_mono) simp
    also have "\<dots> = B div N + 1" using assms(1) by (simp add: div_add_self2)
    finally show ?thesis .
  qed
  with lo hi c show ?thesis by linarith
qed

lemma encodeNext_eq:
  "encs ex \<noteq> [] \<Longrightarrow>
   encodeNext b ex w
     = obind (Encode (encs ex ! ((encsNext ex + 1) mod length (encs ex))) b w) (\<lambda>(err, w').
         Returns (err, ex\<lparr>encsNext := (encsNext ex + 1) mod length (encs ex)\<rparr>, w'))"
  by (simp add: encodeNext_def Let_def)

lemma sendSeq_scatter:
  "Type ex = scatter \<Longrightarrow> encs ex \<noteq> [] \<Longrightarrow> encsNext ex < length (encs ex) \<Longrightarrow>
   sendSeq bs ex w
     = obind (encodeSeq (map (\<lambda>j. (encs ex ! ((encsNext ex + Suc j) mod length (encs ex)), bs ! j))
                             [0..<length bs]) w)
         (\<lambda>(rs, w'). Returns (rs, ex\<lparr>encsNext := (encsNext ex + length bs) mod length (encs ex)\<rparr>, w'))"
proof (induction bs arbitrary: ex w)
  case Nil
  then show ?case by simp
next
  case (Cons b bs)
  let ?N = "length (encs ex)"
  let ?i = "(encsNext ex + 1) mod ?N"
  let ?ex1 = "ex\<lparr>encsNext := ?i\<rparr>"
  let ?f = "\<lambda>j. (encs ex ! ((encsNext ex + Suc (Suc j)) mod ?N), bs ! j)"
  have M0: "\<And>m. (?i + m) mod ?N = (encsNext ex + Suc m) mod ?N"
  proof -
    fix m
    have "(?i + m) mod ?N = ((encsNext ex + 1) + m) mod ?N"
      by (rule mod_add_left_eq)
    then show "(?i + m) mod ?N = (encsNext ex + Suc m) mod ?N" by simp
  qed
  have F: "map (\<lambda>j. (encs ex ! ((encsNext ex + Suc j) mod ?N), (b # bs) ! j)) [0..<length (b # bs)]
      = (encs ex ! ?i, b) # map ?f [0..<length bs]"
    by (simp add: map_upt_Suc del: upt_Suc)
  have S: "send b ex w = obind (Encode (encs ex ! ?i) b w) (\<lambda>(err, w'). Returns (err, ?ex1, w'))"
    using Cons.prems encodeNext_eq [of ex b w] by (simp add: send_def)
  have P: "Type ?ex1 = scatter" "encs ?ex1 \<noteq> []" "encsNext ?ex1 < length (encs ?ex1)"
    using Cons.prems by simp_all
  have IH: "\<And>w1. sendSeq bs ?ex1 w1
     = obind (encodeSeq (map ?f [0..<length bs]) w1)
         (\<lambda>(rs, w'). Returns (rs, ex\<lparr>encsNext := (encsNext ex + length (b # bs)) mod ?N\<rparr>, w'))"
  proof -
    fix w1
    have "(\<lambda>j. (encs ex ! ((?i + Suc j) mod ?N), bs ! j)) = ?f"
      by (simp only: M0)
    moreover have "(?i + length bs) mod ?N = (encsNext ex + length (b # bs)) mod ?N"
      using M0 [of "length bs"] by simp
    ultimately show "sendSeq bs ?ex1 w1
     = obind (encodeSeq (map ?f [0..<length bs]) w1)
         (\<lambda>(rs, w'). Returns (rs, ex\<lparr>encsNext := (encsNext ex + length (b # bs)) mod ?N\<rparr>, w'))"
      using Cons.IH [OF P, of w1] by simp
  qed
  show ?case
  proof (cases "Encode (encs ex ! ?i) b w")
    case (Returns x)
    obtain r w1 where x: "x = (r, w1)" by (cases x)
    show ?thesis
    proof (cases "encodeSeq (map ?f [0..<length bs]) w1")
      case R2: (Returns y)
      obtain rs w2 where y: "y = (rs, w2)" by (cases y)
      show ?thesis
        unfolding F using S Returns x R2 y IH [of w1] by simp
    next
      case Panics
      then show ?thesis unfolding F using S Returns x IH [of w1] by simp
    next
      case Blocks
      then show ?thesis unfolding F using S Returns x IH [of w1] by simp
    qed
  next
    case Panics
    then show ?thesis unfolding F using S by simp
  next
    case Blocks
    then show ?thesis unfolding F using S by simp
  qed
qed

text \<open>
  C2. A scatter send is \<open>encodeNext\<close>. With no encoder it fails with the closed-pipe
  error and does nothing. Otherwise it advances the cursor to \<open>(i + 1) mod N\<close> and calls
  \<open>Encode\<close> on the encoder at the new cursor. The cursor of a new exchange is 0, so a
  sequence of sends that starts there is the sequence of the real \<open>Encode\<close> calls in
  which the batch at position \<open>j\<close>, counted from 1, goes to encoder \<open>j mod N\<close>, the first
  one to encoder 1 when there are two encoders or more and to the only encoder otherwise;
  every encoder index is the recipient of \<open>B div N\<close> or of \<open>(B + N - 1) div N\<close> of the
  \<open>B\<close> batches.
\<close>

theorem scatter_round_robin:
  "encsNext (Scatter uid) = 0
   \<and> (Type ex = scatter \<longrightarrow> send b ex w = encodeNext b ex w)
   \<and> (encs ex = [] \<longrightarrow> encodeNext b ex w = Returns (Some ErrClosedPipe, ex, w))
   \<and> (encs ex \<noteq> [] \<longrightarrow>
        encodeNext b ex w
          = obind (Encode (encs ex ! ((encsNext ex + 1) mod length (encs ex))) b w) (\<lambda>(err, w').
              Returns (err, ex\<lparr>encsNext := (encsNext ex + 1) mod length (encs ex)\<rparr>, w')))
   \<and> (Type ex = scatter \<longrightarrow> encs ex \<noteq> [] \<longrightarrow> encsNext ex = 0 \<longrightarrow>
        sendSeq bs ex w
          = obind (encodeSeq (map (\<lambda>j. (encs ex ! (Suc j mod length (encs ex)), bs ! j))
                                  [0..<length bs]) w)
              (\<lambda>(rs, w'). Returns (rs, ex\<lparr>encsNext := length bs mod length (encs ex)\<rparr>, w')))
   \<and> (\<forall>k<length (encs ex).
         length (filter (\<lambda>j. Suc j mod length (encs ex) = k) [0..<length bs])
           = length bs div length (encs ex)
       \<or> length (filter (\<lambda>j. Suc j mod length (encs ex) = k) [0..<length bs])
           = (length bs + length (encs ex) - 1) div length (encs ex))"
proof (intro conjI impI allI)
  show "encsNext (Scatter uid) = 0" by (simp add: Scatter_def newExchange_def)
next
  assume "Type ex = scatter"
  then show "send b ex w = encodeNext b ex w" by (simp add: send_def)
next
  assume "encs ex = []"
  then show "encodeNext b ex w = Returns (Some ErrClosedPipe, ex, w)"
    by (simp add: encodeNext_def)
next
  assume "encs ex \<noteq> []"
  then show "encodeNext b ex w
          = obind (Encode (encs ex ! ((encsNext ex + 1) mod length (encs ex))) b w) (\<lambda>(err, w').
              Returns (err, ex\<lparr>encsNext := (encsNext ex + 1) mod length (encs ex)\<rparr>, w'))"
    by (rule encodeNext_eq)
next
  assume A: "Type ex = scatter" "encs ex \<noteq> []" "encsNext ex = 0"
  then have "encsNext ex < length (encs ex)" by simp
  from sendSeq_scatter [OF A(1,2) this, of bs w] A(3)
  show "sendSeq bs ex w
          = obind (encodeSeq (map (\<lambda>j. (encs ex ! (Suc j mod length (encs ex)), bs ! j))
                                  [0..<length bs]) w)
              (\<lambda>(rs, w'). Returns (rs, ex\<lparr>encsNext := length bs mod length (encs ex)\<rparr>, w'))"
    by simp
next
  fix k
  assume K: "k < length (encs ex)"
  then have "0 < length (encs ex)" by (cases "encs ex") simp_all
  from count_bounds [OF this K, of "length bs"] show "length (filter (\<lambda>j. Suc j mod length (encs ex) = k) [0..<length bs])
           = length bs div length (encs ex)
       \<or> length (filter (\<lambda>j. Suc j mod length (encs ex) = k) [0..<length bs])
           = (length bs + length (encs ex) - 1) div length (encs ex)"
    by simp
qed

theorem scatter_round_robin_witness:
  "Type sampleScatter = scatter \<and> encs sampleScatter \<noteq> [] \<and> encsNext sampleScatter = 0
   \<and> (case sendSeq [PDataset [[''x'']], PDataset [[''y'']], PDataset [[''z'']], PDataset [[''w'']]]
               sampleScatter sampleWorld of
         Returns (rs, ex', w') \<Rightarrow>
           rs = [None, None, Some (ExtError ''broken pipe''), None]
           \<and> encsNext ex' = 1
           \<and> trace w' = [EvEncode (EncSC 0) (PDataset [[''x'']]) None,
                          EvEncode (EncGob 1) (PDataset [[''y'']]) None,
                          EvEncode (EncGob 0) (PDataset [[''z'']]) (Some (ExtError ''broken pipe'')),
                          EvEncode (EncSC 0) (PDataset [[''w'']]) None]
           \<and> C (scs w' 0) = [PDataset [[''x'']], PDataset [[''w'']]]
       | Panics \<Rightarrow> False | Blocks \<Rightarrow> False)
   \<and> length (filter (\<lambda>j. Suc j mod 3 = 1) [0..<4]) = (4 + 3 - 1) div 3
   \<and> length (filter (\<lambda>j. Suc j mod 3 = 0) [0..<4]) = 4 div 3
   \<and> send (PDataset [[''x'']]) (Scatter ''uid'') sampleWorld
       = Returns (Some ErrClosedPipe, Scatter ''uid'', sampleWorld)"
proof -
  have T: "Type sampleScatter = scatter" "encs sampleScatter \<noteq> []" "encsNext sampleScatter = 0"
    by (simp_all add: sampleScatter_def Scatter_def newExchange_def)
  have S: "sendSeq [PDataset [[''x'']], PDataset [[''y'']], PDataset [[''z'']], PDataset [[''w'']]]
               sampleScatter sampleWorld
      = obind (encodeSeq (map (\<lambda>j. (encs sampleScatter ! (Suc j mod length (encs sampleScatter)),
                                       [PDataset [[''x'']], PDataset [[''y'']], PDataset [[''z'']],
                                        PDataset [[''w'']]] ! j))
                              [0..<length [PDataset [[''x'']], PDataset [[''y'']], PDataset [[''z'']],
                                           PDataset [[''w'']]]]) sampleWorld)
          (\<lambda>(rs, w'). Returns (rs, sampleScatter\<lparr>encsNext :=
              length [PDataset [[''x'']], PDataset [[''y'']], PDataset [[''z'']], PDataset [[''w'']]]
                mod length (encs sampleScatter)\<rparr>, w'))"
    using scatter_round_robin [of _ sampleScatter _ sampleWorld] T by blast
  have U: "[0..<4] = [0, 1, 2, 3::nat]" by (simp add: upt_rec)
  have E: "send (PDataset [[''x'']]) (Scatter ''uid'') sampleWorld
       = Returns (Some ErrClosedPipe, Scatter ''uid'', sampleWorld)"
  proof -
    have "Type (Scatter ''uid'') = scatter" "encs (Scatter ''uid'') = []"
      by (simp_all add: Scatter_def newExchange_def)
    with scatter_round_robin [of _ "Scatter ''uid''" "PDataset [[''x'']]" sampleWorld]
    show ?thesis by metis
  qed
  have V: "(case sendSeq [PDataset [[''x'']], PDataset [[''y'']], PDataset [[''z'']], PDataset [[''w'']]]
               sampleScatter sampleWorld of
         Returns (rs, ex', w') \<Rightarrow>
           rs = [None, None, Some (ExtError ''broken pipe''), None]
           \<and> encsNext ex' = 1
           \<and> trace w' = [EvEncode (EncSC 0) (PDataset [[''x'']]) None,
                          EvEncode (EncGob 1) (PDataset [[''y'']]) None,
                          EvEncode (EncGob 0) (PDataset [[''z'']]) (Some (ExtError ''broken pipe'')),
                          EvEncode (EncSC 0) (PDataset [[''w'']]) None]
           \<and> C (scs w' 0) = [PDataset [[''x'']], PDataset [[''w'']]]
       | Panics \<Rightarrow> False | Blocks \<Rightarrow> False)"
    unfolding S
    by (simp add: U sampleScatter_def Scatter_def newExchange_def sampleWorld_def quietConn_def
          chanCap_def logEv_def Let_def)
  have K: "length (filter (\<lambda>j. Suc j mod 3 = 1) [0..<4]) = (4 + 3 - 1) div 3"
     "length (filter (\<lambda>j. Suc j mod 3 = 0) [0..<4]) = 4 div 3"
    by (simp_all add: U)
  from T V K E show ?thesis by blast
qed

section \<open>The receive path\<close>

lemma decodeNext_empty:
  "decs ex = [] \<Longrightarrow> decodeNext ex w = Returns (Inl EOF, ex, w)"
  by (simp add: decodeNext.simps)

lemma decodeNext_eof:
  "decs ex \<noteq> [] \<Longrightarrow>
   Decode (decs ex ! ((decsNext ex + 1) mod length (decs ex))) w = Returns (Some EOF, p, w') \<Longrightarrow>
   decodeNext ex w
     = decodeNext (ex\<lparr>decs := take ((decsNext ex + 1) mod length (decs ex)) (decs ex)
                             @ drop (Suc ((decsNext ex + 1) mod length (decs ex))) (decs ex)\<rparr>) w'"
  by (simp add: decodeNext.simps [of ex w] Let_def)

lemma decodeNext_error:
  "decs ex \<noteq> [] \<Longrightarrow>
   Decode (decs ex ! ((decsNext ex + 1) mod length (decs ex))) w = Returns (Some e, p, w') \<Longrightarrow>
   e \<noteq> EOF \<Longrightarrow>
   decodeNext ex w = Returns (Inl e, ex, w')"
  by (simp add: decodeNext.simps [of ex w] Let_def)

lemma decodeNext_dataset:
  "decs ex \<noteq> [] \<Longrightarrow>
   Decode (decs ex ! ((decsNext ex + 1) mod length (decs ex))) w = Returns (None, PDataset d, w') \<Longrightarrow>
   decodeNext ex w
     = Returns (Inr d, ex\<lparr>decsNext := (decsNext ex + 1) mod length (decs ex)\<rparr>, w')"
  by (simp add: decodeNext.simps [of ex w] Let_def)

lemma decodeNext_panic:
  "decs ex \<noteq> [] \<Longrightarrow>
   Decode (decs ex ! ((decsNext ex + 1) mod length (decs ex))) w = Returns (None, p, w') \<Longrightarrow>
   \<forall>d. p \<noteq> PDataset d \<Longrightarrow>
   decodeNext ex w = Panics"
  by (cases p) (simp_all add: decodeNext.simps [of ex w] Let_def)

lemma decodeNext_stuck:
  "decs ex \<noteq> [] \<Longrightarrow>
   Decode (decs ex ! ((decsNext ex + 1) mod length (decs ex))) w = Blocks \<Longrightarrow>
   decodeNext ex w = Blocks"
  by (simp add: decodeNext.simps [of ex w] Let_def)

lemma decodeNext_EOF_empty:
  "decodeNext ex w = Returns (Inl EOF, ex', w') \<Longrightarrow> decs ex' = []"
proof (induction ex w rule: decodeNext.induct)
  case (1 ex w)
  show ?case
  proof (cases "length (decs ex) = 0")
    case True
    with "1.prems" show ?thesis by (simp add: decodeNext.simps)
  next
    case False
    let ?i = "(decsNext ex + 1) mod length (decs ex)"
    show ?thesis
    proof (cases "Decode (decs ex ! ?i) w")
      case (Returns x)
      obtain err p w1 where x: "x = (err, p, w1)" by (cases x)
      show ?thesis
      proof (cases err)
        case None
        with "1.prems" False Returns x show ?thesis
          by (auto simp: decodeNext.simps [of ex w] Let_def split: payload.splits)
      next
        case (Some e)
        show ?thesis
        proof (cases "e = EOF")
          case True
          let ?ex1 = "ex\<lparr>decs := take ?i (decs ex) @ drop (?i + 1) (decs ex)\<rparr>"
          from "1.prems" False Returns x Some True
          have "decodeNext ?ex1 w1 = Returns (Inl EOF, ex', w')"
            by (simp add: decodeNext.simps [of ex w] Let_def)
          from "1.IH" [OF False refl Returns x [symmetric] refl Some True this]
          show ?thesis by simp
        next
          case neq: False
          with "1.prems" False Returns x Some show ?thesis
            by (simp add: decodeNext.simps [of ex w] Let_def)
        qed
      qed
    next
      case Panics
      with "1.prems" False show ?thesis by (simp add: decodeNext.simps [of ex w] Let_def)
    next
      case Blocks
      with "1.prems" False show ?thesis by (simp add: decodeNext.simps [of ex w] Let_def)
    qed
  qed
qed

lemma decodeNext_all_done:
  "(\<And>d w0. d \<in> set (decs ex) \<Longrightarrow> \<exists>p w1. Decode d w0 = Returns (Some EOF, p, w1)) \<Longrightarrow>
   \<exists>w'. decodeNext ex w = Returns (Inl EOF, ex\<lparr>decs := []\<rparr>, w')"
proof (induction "length (decs ex)" arbitrary: ex w)
  case 0
  then have "decs ex = []" by simp
  then show ?case using decodeNext_empty [of ex w] by simp
next
  case (Suc n)
  then have ne: "decs ex \<noteq> []" by auto
  let ?i = "(decsNext ex + 1) mod length (decs ex)"
  let ?ex1 = "ex\<lparr>decs := take ?i (decs ex) @ drop (Suc ?i) (decs ex)\<rparr>"
  have il: "?i < length (decs ex)" using ne by simp
  then have "decs ex ! ?i \<in> set (decs ex)" by simp
  from Suc.prems [OF this, of w] obtain p w1 where
    D: "Decode (decs ex ! ?i) w = Returns (Some EOF, p, w1)" by blast
  have len: "n = length (decs ?ex1)" using Suc.hyps(2) il by simp
  have sub: "\<And>d w0. d \<in> set (decs ?ex1) \<Longrightarrow> \<exists>p w1. Decode d w0 = Returns (Some EOF, p, w1)"
  proof -
    fix d w0
    assume "d \<in> set (decs ?ex1)"
    then have "d \<in> set (decs ex)"
      by (auto dest: in_set_takeD in_set_dropD)
    then show "\<exists>p w1. Decode d w0 = Returns (Some EOF, p, w1)" by (rule Suc.prems)
  qed
  from Suc.hyps(1) [OF len sub, of w1] obtain w' where
    "decodeNext ?ex1 w1 = Returns (Inl EOF, ?ex1\<lparr>decs := []\<rparr>, w')" by blast
  with decodeNext_eof [OF ne D] show ?case by simp
qed

lemma isEOFError_iff: "isEOFError p = (\<exists>e. p = PError e \<and> Error e = ''EOF'')"
  by (cases p) (simp_all add: isEOFError_def)


text \<open>
  C4. \<open>receive\<close> is \<open>decodeNext\<close>. With no decoder left it returns EOF and does nothing.
  Otherwise it calls \<open>Decode\<close> on the decoder after the cursor. When that call ends in
  EOF, the decoder is removed and \<open>decodeNext\<close> goes on with the remaining ones, so it
  returns EOF to its caller only with no decoder left, and it does so when every decoder is
  at its end. Any other error of the decoder is returned at once, with the decoder list and
  the cursor as they were. When the call delivers a dataset, the cursor becomes the index
  of that decoder and the dataset is returned. A decoder ends in EOF for a stream at its
  end, for a closed and empty short-circuit and for an envelope that carries the EOF
  sentinel, which is the envelope of the EOF broadcast.
\<close>

theorem decodeNext_cases:
  "receive ex w = decodeNext ex w
   \<and> (decs ex = [] \<longrightarrow> decodeNext ex w = Returns (Inl EOF, ex, w))
   \<and> (decs ex \<noteq> [] \<longrightarrow>
        Decode (decs ex ! ((decsNext ex + 1) mod length (decs ex))) w = Returns (Some EOF, p, w') \<longrightarrow>
        decodeNext ex w
          = decodeNext (ex\<lparr>decs := take ((decsNext ex + 1) mod length (decs ex)) (decs ex)
                                  @ drop (Suc ((decsNext ex + 1) mod length (decs ex))) (decs ex)\<rparr>) w')
   \<and> (decodeNext ex w = Returns (Inl EOF, ex', w') \<longrightarrow> decs ex' = [])
   \<and> ((\<forall>d w0. d \<in> set (decs ex) \<longrightarrow> (\<exists>p w1. Decode d w0 = Returns (Some EOF, p, w1))) \<longrightarrow>
        (\<exists>w'. decodeNext ex w = Returns (Inl EOF, ex\<lparr>decs := []\<rparr>, w')))
   \<and> (decs ex \<noteq> [] \<longrightarrow>
        Decode (decs ex ! ((decsNext ex + 1) mod length (decs ex))) w = Returns (Some e, p, w') \<longrightarrow>
        e \<noteq> EOF \<longrightarrow>
        decodeNext ex w = Returns (Inl e, ex, w'))
   \<and> (decs ex \<noteq> [] \<longrightarrow>
        Decode (decs ex ! ((decsNext ex + 1) mod length (decs ex))) w = Returns (None, PDataset d, w') \<longrightarrow>
        decodeNext ex w
          = Returns (Inr d, ex\<lparr>decsNext := (decsNext ex + 1) mod length (decs ex)\<rparr>, w'))
   \<and> (incoming (netConns w a) = [] \<or> (\<exists>rest. incoming (netConns w a) = Inl EOF # rest) \<longrightarrow>
        Decode (DecDbg a msg) w
          = Returns (Some EOF, PNil,
                     logEv (EvDecode (DecDbg a msg) (Some EOF))
                       (w\<lparr>netConns := (netConns w)(a := (netConns w a)
                             \<lparr>incoming := tl (incoming (netConns w a))\<rparr>)\<rparr>)))
   \<and> (incoming (netConns w a) = Inr q # rest \<longrightarrow> isEOFError q \<longrightarrow>
        Decode (DecDbg a msg) w
          = Returns (Some EOF, q,
                     logEv (EvDecode (DecDbg a msg) (Some EOF))
                       (w\<lparr>netConns := (netConns w)(a := (netConns w a)\<lparr>incoming := rest\<rparr>)\<rparr>)))
   \<and> (C (scs w a) = [] \<longrightarrow> closed (scs w a) \<longrightarrow>
        Decode (DecSC a) w = Returns (Some EOF, PNil, logEv (EvDecode (DecSC a) (Some EOF)) w))
   \<and> (C (scs w a) = q # qs \<longrightarrow> isEOFError q \<longrightarrow>
        Decode (DecSC a) w
          = Returns (Some EOF, PNil,
                     logEv (EvDecode (DecSC a) (Some EOF))
                       (w\<lparr>scs := (scs w)(a := (scs w a)\<lparr>C := qs\<rparr>)\<rparr>)))
   \<and> isEOFError eofMsg"
proof (intro conjI impI)
  show "receive ex w = decodeNext ex w" by (simp add: receive_def)
  show "decodeNext ex w = Returns (Inl EOF, ex, w)" if "decs ex = []"
    using that by (rule decodeNext_empty)
  show "decodeNext ex w
          = decodeNext (ex\<lparr>decs := take ((decsNext ex + 1) mod length (decs ex)) (decs ex)
                                  @ drop (Suc ((decsNext ex + 1) mod length (decs ex))) (decs ex)\<rparr>) w'"
    if "decs ex \<noteq> []"
      "Decode (decs ex ! ((decsNext ex + 1) mod length (decs ex))) w = Returns (Some EOF, p, w')"
    using that by (rule decodeNext_eof)
  show "decs ex' = []" if "decodeNext ex w = Returns (Inl EOF, ex', w')"
    using that by (rule decodeNext_EOF_empty)
  show "\<exists>w'. decodeNext ex w = Returns (Inl EOF, ex\<lparr>decs := []\<rparr>, w')"
    if "\<forall>d w0. d \<in> set (decs ex) \<longrightarrow> (\<exists>p w1. Decode d w0 = Returns (Some EOF, p, w1))"
    using that decodeNext_all_done [of ex w] by blast
  show "decodeNext ex w = Returns (Inl e, ex, w')"
    if "decs ex \<noteq> []"
      "Decode (decs ex ! ((decsNext ex + 1) mod length (decs ex))) w = Returns (Some e, p, w')"
      "e \<noteq> EOF"
    using that by (rule decodeNext_error)
  show "decodeNext ex w
          = Returns (Inr d, ex\<lparr>decsNext := (decsNext ex + 1) mod length (decs ex)\<rparr>, w')"
    if "decs ex \<noteq> []"
      "Decode (decs ex ! ((decsNext ex + 1) mod length (decs ex))) w = Returns (None, PDataset d, w')"
    using that by (rule decodeNext_dataset)
  show "Decode (DecDbg a msg) w
          = Returns (Some EOF, PNil,
                     logEv (EvDecode (DecDbg a msg) (Some EOF))
                       (w\<lparr>netConns := (netConns w)(a := (netConns w a)
                             \<lparr>incoming := tl (incoming (netConns w a))\<rparr>)\<rparr>))"
    if "incoming (netConns w a) = [] \<or> (\<exists>rest. incoming (netConns w a) = Inl EOF # rest)"
    using that by (auto simp: Let_def)
  show "Decode (DecDbg a msg) w
          = Returns (Some EOF, q,
                     logEv (EvDecode (DecDbg a msg) (Some EOF))
                       (w\<lparr>netConns := (netConns w)(a := (netConns w a)\<lparr>incoming := rest\<rparr>)\<rparr>))"
    if "incoming (netConns w a) = Inr q # rest" "isEOFError q"
    using that by (simp add: Let_def)
  show "Decode (DecSC a) w = Returns (Some EOF, PNil, logEv (EvDecode (DecSC a) (Some EOF)) w)"
    if "C (scs w a) = []" "closed (scs w a)"
    using that by (simp add: Let_def)
  show "Decode (DecSC a) w
          = Returns (Some EOF, PNil,
                     logEv (EvDecode (DecSC a) (Some EOF))
                       (w\<lparr>scs := (scs w)(a := (scs w a)\<lparr>C := qs\<rparr>)\<rparr>))"
    if "C (scs w a) = q # qs" "isEOFError q"
    using that by (simp add: Let_def)
  show "isEOFError eofMsg" by (simp add: isEOFError_def eofMsg_def)
qed

lemmas recv_eval =
  decodeNext.simps recvEx_def recvWorld_def Broadcast_def newExchange_def quietConn_def
  isEOFError_def eofMsg_def logEv_def Let_def

theorem decodeNext_cases_witness:
  "decodeNext (recvEx []) recvWorld = Returns (Inl EOF, recvEx [], recvWorld)
   \<and> (case decodeNext (recvEx [DecDbg 1 ''m'', DecDbg 3 ''m'', DecSC 1]) recvWorld of
         Returns (r, ex', w') \<Rightarrow>
           r = Inr [[''a'']] \<and> decs ex' = [DecDbg 1 ''m''] \<and> decsNext ex' = 0
           \<and> trace w' = [EvDecode (DecDbg 3 ''m'') (Some EOF), EvDecode (DecSC 1) (Some EOF),
                          EvDecode (DecDbg 1 ''m'') None]
       | Panics \<Rightarrow> False | Blocks \<Rightarrow> False)
   \<and> (case decodeNext (recvEx [DecDbg 3 ''m'', DecDbg 2 ''m'', DecDbg 1 ''m'']) recvWorld of
         Returns (r, ex', w') \<Rightarrow>
           r = Inl (ExtError ''reset'')
           \<and> ex' = recvEx [DecDbg 3 ''m'', DecDbg 2 ''m'', DecDbg 1 ''m'']
           \<and> trace w' = [EvDecode (DecDbg 2 ''m'') (Some (ExtError ''reset''))]
       | Panics \<Rightarrow> False | Blocks \<Rightarrow> False)
   \<and> (case decodeNext (recvEx [DecDbg 3 ''m'', DecDbg 4 ''m'']) recvWorld of
         Returns (r, ex', w') \<Rightarrow>
           r = Inl EOF \<and> decs ex' = []
           \<and> trace w' = [EvDecode (DecDbg 4 ''m'') (Some EOF), EvDecode (DecDbg 3 ''m'') (Some EOF)]
           \<and> incoming (netConns w' 4) = [Inr (PDataset [[''late'']])]
       | Panics \<Rightarrow> False | Blocks \<Rightarrow> False)
   \<and> decodeNext (recvEx [DecDbg 3 ''m'', DecSC 2]) recvWorld = Blocks"
proof -
  have E: "decs (recvEx []) = []" by (simp add: recvEx_def)
  have W1: "decodeNext (recvEx []) recvWorld = Returns (Inl EOF, recvEx [], recvWorld)"
    using decodeNext_cases [of "recvEx []" recvWorld] E by blast
  let ?ex = "recvEx [DecDbg 3 ''m'', DecDbg 2 ''m'', DecDbg 1 ''m'']"
  have N: "decs ?ex \<noteq> []" by (simp add: recvEx_def)
  obtain p w1 where D: "Decode (decs ?ex ! ((decsNext ?ex + 1) mod length (decs ?ex))) recvWorld
      = Returns (Some (ExtError ''reset''), p, w1)"
      and T: "trace w1 = [EvDecode (DecDbg 2 ''m'') (Some (ExtError ''reset''))]"
    by (simp add: recv_eval)
  have "decodeNext ?ex recvWorld = Returns (Inl (ExtError ''reset''), ?ex, w1)"
    using decodeNext_cases [of ?ex recvWorld _ w1 _ "ExtError ''reset''"] N D by blast
  with T have W3: "(case decodeNext ?ex recvWorld of
         Returns (r, ex', w') \<Rightarrow>
           r = Inl (ExtError ''reset'') \<and> ex' = ?ex
           \<and> trace w' = [EvDecode (DecDbg 2 ''m'') (Some (ExtError ''reset''))]
       | Panics \<Rightarrow> False | Blocks \<Rightarrow> False)"
    by simp
  have W2: "(case decodeNext (recvEx [DecDbg 1 ''m'', DecDbg 3 ''m'', DecSC 1]) recvWorld of
         Returns (r, ex', w') \<Rightarrow>
           r = Inr [[''a'']] \<and> decs ex' = [DecDbg 1 ''m''] \<and> decsNext ex' = 0
           \<and> trace w' = [EvDecode (DecDbg 3 ''m'') (Some EOF), EvDecode (DecSC 1) (Some EOF),
                          EvDecode (DecDbg 1 ''m'') None]
       | Panics \<Rightarrow> False | Blocks \<Rightarrow> False)"
    by (simp add: recv_eval)
  have W4: "(case decodeNext (recvEx [DecDbg 3 ''m'', DecDbg 4 ''m'']) recvWorld of
         Returns (r, ex', w') \<Rightarrow>
           r = Inl EOF \<and> decs ex' = []
           \<and> trace w' = [EvDecode (DecDbg 4 ''m'') (Some EOF), EvDecode (DecDbg 3 ''m'') (Some EOF)]
           \<and> incoming (netConns w' 4) = [Inr (PDataset [[''late'']])]
       | Panics \<Rightarrow> False | Blocks \<Rightarrow> False)"
    by (simp add: recv_eval)
  have W5: "decodeNext (recvEx [DecDbg 3 ''m'', DecSC 2]) recvWorld = Blocks"
    by (simp add: recv_eval)
  from W1 W2 W3 W4 W5 show ?thesis by blast
qed

text \<open>
  C10. When the decoder after the cursor succeeds and leaves a payload that is not a
  dataset, \<open>decodeNext\<close> panics instead of returning an error. Both kinds of decoder
  succeed on every envelope that is not the EOF sentinel, and the sentinel is exactly an
  error value whose message is that of EOF; so an envelope with any other error, with a
  value of another type or with nil makes \<open>decodeNext\<close> panic.
\<close>

theorem decodeNext_panics:
  "(decs ex \<noteq> [] \<longrightarrow>
      Decode (decs ex ! ((decsNext ex + 1) mod length (decs ex))) w = Returns (None, p, w') \<longrightarrow>
      (\<forall>d. p \<noteq> PDataset d) \<longrightarrow>
      decodeNext ex w = Panics)
   \<and> (incoming (netConns w a) = Inr q # rest \<longrightarrow> \<not> isEOFError q \<longrightarrow>
        Decode (DecDbg a msg) w
          = Returns (None, q,
                     logEv (EvDecode (DecDbg a msg) None)
                       (w\<lparr>netConns := (netConns w)(a := (netConns w a)\<lparr>incoming := rest\<rparr>)\<rparr>)))
   \<and> (C (scs w a) = q # qs \<longrightarrow> \<not> isEOFError q \<longrightarrow>
        Decode (DecSC a) w
          = Returns (None, q,
                     logEv (EvDecode (DecSC a) None)
                       (w\<lparr>scs := (scs w)(a := (scs w a)\<lparr>C := qs\<rparr>)\<rparr>)))
   \<and> isEOFError q = (\<exists>e. q = PError e \<and> Error e = ''EOF'')"
proof (intro conjI impI)
  show "decodeNext ex w = Panics"
    if "decs ex \<noteq> []"
      "Decode (decs ex ! ((decsNext ex + 1) mod length (decs ex))) w = Returns (None, p, w')"
      "\<forall>d. p \<noteq> PDataset d"
    using that by (rule decodeNext_panic)
  show "Decode (DecDbg a msg) w
          = Returns (None, q,
                     logEv (EvDecode (DecDbg a msg) None)
                       (w\<lparr>netConns := (netConns w)(a := (netConns w a)\<lparr>incoming := rest\<rparr>)\<rparr>))"
    if "incoming (netConns w a) = Inr q # rest" "\<not> isEOFError q"
    using that by (simp add: Let_def)
  show "Decode (DecSC a) w
          = Returns (None, q,
                     logEv (EvDecode (DecSC a) None)
                       (w\<lparr>scs := (scs w)(a := (scs w a)\<lparr>C := qs\<rparr>)\<rparr>))"
    if "C (scs w a) = q # qs" "\<not> isEOFError q"
    using that by (simp add: Let_def)
  show "isEOFError q = (\<exists>e. q = PError e \<and> Error e = ''EOF'')"
    by (rule isEOFError_iff)
qed

theorem decodeNext_panics_witness:
  "decs (recvEx [DecDbg 0 ''m'']) \<noteq> []
   \<and> incoming (netConns recvWorld 0) = [Inr (PError (ErrMsg ''boom''))]
   \<and> \<not> isEOFError (PError (ErrMsg ''boom''))
   \<and> (\<forall>d. PError (ErrMsg ''boom'') \<noteq> PDataset d)
   \<and> decodeNext (recvEx [DecDbg 0 ''m'']) recvWorld = Panics
   \<and> C (scs recvWorld 0) = [POther ''x''] \<and> \<not> isEOFError (POther ''x'')
   \<and> decodeNext (recvEx [DecDbg 3 ''m'', DecSC 0]) recvWorld = Panics"
proof -
  let ?ex = "recvEx [DecDbg 0 ''m'']"
  have N: "decs ?ex \<noteq> []" by (simp add: recvEx_def)
  have I: "incoming (netConns recvWorld 0) = [Inr (PError (ErrMsg ''boom''))]"
    by (simp add: recvWorld_def)
  have Q: "\<not> isEOFError (PError (ErrMsg ''boom''))" by (simp add: isEOFError_def)
  have P: "\<forall>d. PError (ErrMsg ''boom'') \<noteq> PDataset d" by simp
  have D0: "decs ?ex ! ((decsNext ?ex + 1) mod length (decs ?ex)) = DecDbg 0 ''m''"
    by (simp add: recvEx_def Broadcast_def newExchange_def)
  from decodeNext_panics [of _ recvWorld _ _ 0 "PError (ErrMsg ''boom'')" "[]" "''m''"] I Q
  obtain w1 where "Decode (DecDbg 0 ''m'') recvWorld = Returns (None, PError (ErrMsg ''boom''), w1)"
    by blast
  with D0 have D: "Decode (decs ?ex ! ((decsNext ?ex + 1) mod length (decs ?ex))) recvWorld
      = Returns (None, PError (ErrMsg ''boom''), w1)" by simp
  have W1: "decodeNext ?ex recvWorld = Panics"
    using decodeNext_panics [of ?ex recvWorld "PError (ErrMsg ''boom'')" w1] N D P by blast
  have C0: "C (scs recvWorld 0) = [POther ''x'']" by (simp add: recvWorld_def)
  have Q2: "\<not> isEOFError (POther ''x'')" by (simp add: isEOFError_def)
  have W2: "decodeNext (recvEx [DecDbg 3 ''m'', DecSC 0]) recvWorld = Panics"
    by (simp add: recv_eval)
  from N I Q P W1 C0 Q2 W2 show ?thesis by blast
qed

section \<open>Initialization\<close>

lemma Connect_nextSC: "Connect d n u w = (r, w1) \<Longrightarrow> nextSC w1 = nextSC w"
  by (auto simp: Connect_def logEv_def split: sum.splits)

lemma CloseC_nextSC: "nextSC (snd (CloseC c w)) = nextSC w"
  by (cases c) (simp_all add: logEv_def Let_def)

lemma Close_loop_nextSC: "nextSC (snd (Close_loop cs err w)) = nextSC w"
proof (induction cs arbitrary: err w)
  case Nil
  show ?case by simp
next
  case (Cons c cs)
  obtain r w1 where E: "CloseC c w = (r, w1)" by (cases "CloseC c w")
  with CloseC_nextSC [of c w] have "nextSC w1 = nextSC w" by simp
  with Cons.IH [of "if r \<noteq> None then r else err" w1] E show ?case by simp
qed

lemma Close_nextSC: "nextSC (snd (Close ex w)) = nextSC w"
  by (simp add: Close_def Close_loop_nextSC)

lemma init_targets_decs:
  "init_targets d t ns ex w l = (e, ex1, w1, l1) \<Longrightarrow> decs ex1 = decs ex"
proof (induction ns arbitrary: ex w l)
  case Nil
  then show ?case by simp
next
  case (Cons n ns)
  then show ?case
    by (auto simp: Let_def split: if_splits prod.splits sum.splits)
qed

lemma init_targets_other:
  "t \<notin> set ns \<Longrightarrow> init_targets d t ns ex w l = (e, ex1, w1, l1) \<Longrightarrow>
     nextSC w1 = nextSC w \<and> shortCircuitL l1 = shortCircuitL l"
proof (induction ns arbitrary: ex w l)
  case Nil
  then show ?case by simp
next
  case (Cons n ns)
  from Cons.prems(1) have nt: "n \<noteq> t" and tn: "t \<notin> set ns" by auto
  obtain r w0 where C: "Connect d n (UID ex) w = (r, w0)" by (cases "Connect d n (UID ex) w")
  show ?case
  proof (cases r)
    case (Inl err)
    with Cons.prems(2) nt C Connect_nextSC [OF C] show ?thesis by simp
  next
    case (Inr a)
    let ?ex1 = "ex\<lparr>conns := conns ex @ [CloserConn a], encs := encs ex @ [EncGob a],
                   hashRing := ringAdd n (hashRing ex), encsByKey := (encsByKey ex)(n \<mapsto> EncGob a)\<rparr>"
    from Cons.prems(2) nt C Inr
    have "init_targets d t ns ?ex1 w0 (l\<lparr>connsMap := (connsMap l)(n \<mapsto> a)\<rparr>) = (e, ex1, w1, l1)"
      by (simp add: Let_def)
    from Cons.IH [OF tn this] Connect_nextSC [OF C] show ?thesis by simp
  qed
qed

lemma init_targets_ok:
  "init_targets d t ns ex w l = (None, ex1, w1, l1) \<Longrightarrow> hashRing ex = Some ms \<Longrightarrow>
     hashRing ex1 = Some (ms @ ns)
     \<and> length (encs ex1) = length (encs ex) + length ns
     \<and> set (encs ex) \<subseteq> set (encs ex1)
     \<and> nextSC w \<le> nextSC w1
     \<and> (t \<in> set ns \<longrightarrow> nextSC w < nextSC w1
           \<and> (\<exists>sc. shortCircuitL l1 = Some sc \<and> EncSC sc \<in> set (encs ex1)))"
proof (induction ns arbitrary: ex w l ms)
  case Nil
  then show ?case by simp
next
  case (Cons n ns)
  show ?case
  proof (cases "n = t")
    case True
    obtain a w0 where N: "newShortCircuit w = (a, w0)" by (cases "newShortCircuit w")
    then have W0: "nextSC w0 = Suc (nextSC w)" by (auto simp: newShortCircuit_def)
    let ?ex0 = "ex\<lparr>conns := conns ex @ [CloserSC a], encs := encs ex @ [EncSC a],
                   hashRing := ringAdd n (hashRing ex), encsByKey := (encsByKey ex)(n \<mapsto> EncSC a)\<rparr>"
    let ?l0 = "l\<lparr>shortCircuitL := Some a\<rparr>"
    from Cons.prems(1) True N
    have R: "init_targets d t ns ?ex0 w0 ?l0 = (None, ex1, w1, l1)"
      by (simp add: Let_def)
    have H: "hashRing ?ex0 = Some (ms @ [n])" using Cons.prems(2) by (simp add: ringAdd_def)
    from Cons.IH [OF R H] have I:
      "hashRing ex1 = Some ((ms @ [n]) @ ns)"
      "length (encs ex1) = length (encs ?ex0) + length ns"
      "set (encs ?ex0) \<subseteq> set (encs ex1)"
      "nextSC w0 \<le> nextSC w1"
      "t \<in> set ns \<longrightarrow> (\<exists>sc. shortCircuitL l1 = Some sc \<and> EncSC sc \<in> set (encs ex1))"
      by blast+
    have "\<exists>sc. shortCircuitL l1 = Some sc \<and> EncSC sc \<in> set (encs ex1)"
    proof (cases "t \<in> set ns")
      case True
      with I(5) show ?thesis by blast
    next
      case False
      from init_targets_other [OF False R] have "shortCircuitL l1 = Some a" by simp
      moreover from I(3) have "EncSC a \<in> set (encs ex1)" by auto
      ultimately show ?thesis by blast
    qed
    with I W0 show ?thesis by auto
  next
    case False
    obtain r w0 where C: "Connect d n (UID ex) w = (r, w0)" by (cases "Connect d n (UID ex) w")
    show ?thesis
    proof (cases r)
      case (Inl err)
      with Cons.prems(1) False C show ?thesis by simp
    next
      case (Inr a)
      let ?ex0 = "ex\<lparr>conns := conns ex @ [CloserConn a], encs := encs ex @ [EncGob a],
                     hashRing := ringAdd n (hashRing ex), encsByKey := (encsByKey ex)(n \<mapsto> EncGob a)\<rparr>"
      let ?l0 = "l\<lparr>connsMap := (connsMap l)(n \<mapsto> a)\<rparr>"
      from Cons.prems(1) False C Inr
      have R: "init_targets d t ns ?ex0 w0 ?l0 = (None, ex1, w1, l1)"
        by (simp add: Let_def)
      have H: "hashRing ?ex0 = Some (ms @ [n])" using Cons.prems(2) by (simp add: ringAdd_def)
      from Cons.IH [OF R H] Connect_nextSC [OF C] False show ?thesis by auto
    qed
  qed
qed

lemma init_sources_keeps:
  "init_sources d t sc l ns ex w = (e, ex2, w2) \<Longrightarrow>
     hashRing ex2 = hashRing ex \<and> encs ex2 = encs ex \<and> nextSC w2 = nextSC w"
proof (induction ns arbitrary: ex w)
  case Nil
  then show ?case by simp
next
  case (Cons n ns)
  show ?case
  proof (cases "n = t")
    case True
    with Cons.prems have "init_sources d t sc l ns (ex\<lparr>decs := decs ex @ [DecSC sc]\<rparr>) w = (e, ex2, w2)"
      by simp
    from Cons.IH [OF this] show ?thesis by simp
  next
    case False
    let ?msg = "''THIS '' @ t @ '' OTHER '' @ n"
    show ?thesis
    proof (cases "connsMap l n")
      case (Some a)
      with Cons.prems False
      have "init_sources d t sc l ns (ex\<lparr>decs := decs ex @ [DecDbg a ?msg]\<rparr>) w = (e, ex2, w2)"
        by (simp add: Let_def)
      from Cons.IH [OF this] show ?thesis by simp
    next
      case None
      obtain r w0 where C: "Connect d n (UID ex) w = (r, w0)" by (cases "Connect d n (UID ex) w")
      show ?thesis
      proof (cases r)
        case (Inl err)
        with Cons.prems False None C Connect_nextSC [OF C] show ?thesis by (simp add: Let_def)
      next
        case (Inr a)
        with Cons.prems False None C
        have "init_sources d t sc l ns
                (ex\<lparr>conns := conns ex @ [CloserConn a], decs := decs ex @ [DecDbg a ?msg]\<rparr>) w0
              = (e, ex2, w2)"
          by (simp add: Let_def)
        from Cons.IH [OF this] Connect_nextSC [OF C] show ?thesis by simp
      qed
    qed
  qed
qed

lemma init_sources_ok:
  "init_sources d t sc l ns ex w = (None, ex2, w2) \<Longrightarrow>
     \<exists>ds. decs ex2 = decs ex @ ds \<and> map (\<lambda>x. x = DecSC sc) ds = map (\<lambda>n. n = t) ns"
proof (induction ns arbitrary: ex w)
  case Nil
  then show ?case by simp
next
  case (Cons n ns)
  show ?case
  proof (cases "n = t")
    case True
    with Cons.prems have "init_sources d t sc l ns (ex\<lparr>decs := decs ex @ [DecSC sc]\<rparr>) w = (None, ex2, w2)"
      by simp
    from Cons.IH [OF this] obtain ds where
      "decs ex2 = (decs ex @ [DecSC sc]) @ ds" "map (\<lambda>x. x = DecSC sc) ds = map (\<lambda>n. n = t) ns"
      by auto
    with True show ?thesis by (intro exI [of _ "DecSC sc # ds"]) simp
  next
    case False
    let ?msg = "''THIS '' @ t @ '' OTHER '' @ n"
    show ?thesis
    proof (cases "connsMap l n")
      case (Some a)
      with Cons.prems False
      have "init_sources d t sc l ns (ex\<lparr>decs := decs ex @ [DecDbg a ?msg]\<rparr>) w = (None, ex2, w2)"
        by (simp add: Let_def)
      from Cons.IH [OF this] obtain ds where
        "decs ex2 = (decs ex @ [DecDbg a ?msg]) @ ds" "map (\<lambda>x. x = DecSC sc) ds = map (\<lambda>n. n = t) ns"
        by auto
      with False show ?thesis by (intro exI [of _ "DecDbg a ?msg # ds"]) simp
    next
      case None
      obtain r w0 where C: "Connect d n (UID ex) w = (r, w0)" by (cases "Connect d n (UID ex) w")
      show ?thesis
      proof (cases r)
        case (Inl err)
        with Cons.prems False None C show ?thesis by (simp add: Let_def)
      next
        case (Inr a)
        with Cons.prems False None C
        have "init_sources d t sc l ns
                (ex\<lparr>conns := conns ex @ [CloserConn a], decs := decs ex @ [DecDbg a ?msg]\<rparr>) w0
              = (None, ex2, w2)"
          by (simp add: Let_def)
        from Cons.IH [OF this] obtain ds where
          "decs ex2 = (decs ex @ [DecDbg a ?msg]) @ ds" "map (\<lambda>x. x = DecSC sc) ds = map (\<lambda>n. n = t) ns"
          by auto
        with False show ?thesis by (intro exI [of _ "DecDbg a ?msg # ds"]) simp
      qed
    qed
  qed
qed


lemma Connect_trace:
  "Connect d n u w = (Inr a, w0) \<Longrightarrow> trace w0 = trace w @ [EvConnect n u None]"
  by (auto simp: Connect_def logEv_def split: sum.splits)

lemma init_targets_trace:
  "init_targets d t ns ex w l = (None, ex1, w1, l1) \<Longrightarrow>
     trace w1 = trace w @ map (\<lambda>n. EvConnect n (UID ex) None) (filter (\<lambda>n. n \<noteq> t) ns)
     \<and> UID ex1 = UID ex
     \<and> (\<forall>n. (connsMap l1 n = None) = (connsMap l n = None \<and> \<not> (n \<in> set ns \<and> n \<noteq> t)))"
proof (induction ns arbitrary: ex w l)
  case Nil
  then show ?case by simp
next
  case (Cons n ns)
  show ?case
  proof (cases "n = t")
    case True
    obtain a w0 where N: "newShortCircuit w = (a, w0)" by (cases "newShortCircuit w")
    then have W0: "trace w0 = trace w" by (auto simp: newShortCircuit_def)
    let ?ex0 = "ex\<lparr>conns := conns ex @ [CloserSC a], encs := encs ex @ [EncSC a],
                   hashRing := ringAdd n (hashRing ex), encsByKey := (encsByKey ex)(n \<mapsto> EncSC a)\<rparr>"
    from Cons.prems True N
    have "init_targets d t ns ?ex0 w0 (l\<lparr>shortCircuitL := Some a\<rparr>) = (None, ex1, w1, l1)"
      by (simp add: Let_def)
    from Cons.IH [OF this] W0 True show ?thesis by auto
  next
    case False
    obtain r w0 where C: "Connect d n (UID ex) w = (r, w0)" by (cases "Connect d n (UID ex) w")
    show ?thesis
    proof (cases r)
      case (Inl err)
      with Cons.prems False C show ?thesis by simp
    next
      case (Inr a)
      let ?ex0 = "ex\<lparr>conns := conns ex @ [CloserConn a], encs := encs ex @ [EncGob a],
                     hashRing := ringAdd n (hashRing ex), encsByKey := (encsByKey ex)(n \<mapsto> EncGob a)\<rparr>"
      from Cons.prems False C Inr
      have "init_targets d t ns ?ex0 w0 (l\<lparr>connsMap := (connsMap l)(n \<mapsto> a)\<rparr>) = (None, ex1, w1, l1)"
        by (simp add: Let_def)
      from Cons.IH [OF this] Connect_trace [of d n "UID ex" w a w0] C Inr False
      show ?thesis by auto
    qed
  qed
qed

lemma init_sources_trace:
  "init_sources d t sc l ns ex w = (None, ex2, w2) \<Longrightarrow>
     trace w2 = trace w @ map (\<lambda>n. EvConnect n (UID ex) None)
                              (filter (\<lambda>n. n \<noteq> t \<and> connsMap l n = None) ns)"
proof (induction ns arbitrary: ex w)
  case Nil
  then show ?case by simp
next
  case (Cons n ns)
  show ?case
  proof (cases "n = t")
    case True
    with Cons.prems have "init_sources d t sc l ns (ex\<lparr>decs := decs ex @ [DecSC sc]\<rparr>) w = (None, ex2, w2)"
      by simp
    from Cons.IH [OF this] True show ?thesis by simp
  next
    case False
    let ?msg = "''THIS '' @ t @ '' OTHER '' @ n"
    show ?thesis
    proof (cases "connsMap l n")
      case (Some a)
      with Cons.prems False
      have "init_sources d t sc l ns (ex\<lparr>decs := decs ex @ [DecDbg a ?msg]\<rparr>) w = (None, ex2, w2)"
        by (simp add: Let_def)
      from Cons.IH [OF this] False Some show ?thesis by simp
    next
      case None
      obtain r w0 where C: "Connect d n (UID ex) w = (r, w0)" by (cases "Connect d n (UID ex) w")
      show ?thesis
      proof (cases r)
        case (Inl err)
        with Cons.prems False None C show ?thesis by (simp add: Let_def)
      next
        case (Inr a)
        with Cons.prems False None C
        have "init_sources d t sc l ns
                (ex\<lparr>conns := conns ex @ [CloserConn a], decs := decs ex @ [DecDbg a ?msg]\<rparr>) w0
              = (None, ex2, w2)"
          by (simp add: Let_def)
        from Cons.IH [OF this] Connect_trace [of d n "UID ex" w a w0] C Inr False None
        show ?thesis by simp
      qed
    qed
  qed
qed

text \<open>
  C7. With a distributer and the three node values in the context, \<open>init\<close> returns. The
  destinations are the master alone for gather and all nodes otherwise. A short-circuit is
  created exactly when this node is a destination. If it is not, no short-circuit is
  created and the decoder list is left as it was, whether \<open>init\<close> succeeds or fails, so an
  exchange that starts without decoders ends \<open>init\<close> without any and its \<open>receive\<close>
  returns EOF at once. When \<open>init\<close> succeeds, the hash ring holds exactly the destinations
  in order, there is one more encoder per destination, the connections are opened to the
  destinations other than this node and then, on a destination node, to the remaining
  nodes, and on a destination node the decoder list gets one decoder per node in the order
  of all nodes, the short-circuit for this node.
\<close>

theorem init_destinations:
  assumes "distributer c = Some dist" "allNodes c = Some allN"
    "thisNode c = Some thisN" "masterNode c = Some masterN"
  shows "targetNodes ex allN masterN = (if Type ex = gather then [masterN] else allN)
   \<and> (\<exists>r. init c ex w = Returns r)
   \<and> (init c ex w = Returns (err, ex', w') \<longrightarrow>
        (thisN \<notin> set (targetNodes ex allN masterN) \<longrightarrow>
           decs ex' = decs ex \<and> nextSC w' = nextSC w
           \<and> (decs ex = [] \<longrightarrow> receive ex' w' = Returns (Inl EOF, ex', w')))
        \<and> (err = None \<longrightarrow>
             hashRing ex' = Some (targetNodes ex allN masterN)
             \<and> length (encs ex') = length (encs ex) + length (targetNodes ex allN masterN)
             \<and> trace w' = trace w
                 @ map (\<lambda>n. EvConnect n (UID ex) None)
                       (filter (\<lambda>n. n \<noteq> thisN) (targetNodes ex allN masterN))
                 @ (if thisN \<in> set (targetNodes ex allN masterN)
                    then map (\<lambda>n. EvConnect n (UID ex) None)
                           (filter (\<lambda>n. n \<noteq> thisN \<and> n \<notin> set (targetNodes ex allN masterN)) allN)
                    else [])
             \<and> (thisN \<in> set (targetNodes ex allN masterN) \<longrightarrow>
                  nextSC w < nextSC w'
                  \<and> (\<exists>sc ds. EncSC sc \<in> set (encs ex') \<and> decs ex' = decs ex @ ds
                        \<and> map (\<lambda>x. x = DecSC sc) ds = map (\<lambda>n. n = thisN) allN))))"
proof -
  let ?ex0 = "ex\<lparr>hashRing := Some [], encsByKey := Map.empty\<rparr>"
  let ?T = "targetNodes ex allN masterN"
  let ?l0 = "\<lparr>connsMap = Map.empty, shortCircuitL = None\<rparr>"
  have TT: "targetNodes ?ex0 allN masterN = ?T" by (simp add: targetNodes_def)
  obtain e1 ex1 w1 l1 where P1: "init_targets dist thisN ?T ?ex0 w ?l0 = (e1, ex1, w1, l1)"
    by (cases "init_targets dist thisN ?T ?ex0 w ?l0") auto
  have D1: "decs ex1 = decs ex" using init_targets_decs [OF P1] by simp
  show ?thesis
  proof (cases e1)
    case (Some x)
    have I: "init c ex w = Returns (Some x, ex1, snd (Close ex1 w1))"
      using assms P1 Some TT by (simp add: init_def Let_def)
    have "thisN \<notin> set ?T \<Longrightarrow> nextSC (snd (Close ex1 w1)) = nextSC w"
      using init_targets_other [OF _ P1] Close_nextSC [of ex1 w1] by simp
    with I D1 show ?thesis
      by (auto simp: targetNodes_def receive_def decodeNext.simps)
  next
    case None
    note P1 = P1 [unfolded None]
    from init_targets_ok [OF P1, of "[]"] have K:
      "hashRing ex1 = Some ?T" "length (encs ex1) = length (encs ex) + length ?T"
      "thisN \<in> set ?T \<longrightarrow> nextSC w < nextSC w1
           \<and> (\<exists>sc. shortCircuitL l1 = Some sc \<and> EncSC sc \<in> set (encs ex1))"
      by simp_all
    from init_targets_trace [OF P1] have T1:
      "trace w1 = trace w @ map (\<lambda>n. EvConnect n (UID ex) None) (filter (\<lambda>n. n \<noteq> thisN) ?T)"
      "UID ex1 = UID ex"
      "\<And>n. (connsMap l1 n = None) = (\<not> (n \<in> set ?T \<and> n \<noteq> thisN))"
      by simp_all
    show ?thesis
    proof (cases "thisN \<in> set ?T")
      case False
      from init_targets_other [OF False P1] have O: "nextSC w1 = nextSC w" "shortCircuitL l1 = None"
        by simp_all
      have I: "init c ex w = Returns (None, ex1, w1)"
        using assms P1 TT O by (simp add: init_def Let_def)
      with D1 K T1 O False show ?thesis
        by (auto simp: targetNodes_def receive_def decodeNext.simps)
    next
      case True
      with K(3) obtain sc where SC: "shortCircuitL l1 = Some sc" "EncSC sc \<in> set (encs ex1)"
        and LT: "nextSC w < nextSC w1" by blast
      obtain e2 ex2 w2 where P2: "init_sources dist thisN sc l1 allN ex1 w1 = (e2, ex2, w2)"
        by (cases "init_sources dist thisN sc l1 allN ex1 w1") auto
      from init_sources_keeps [OF P2] have KP:
        "hashRing ex2 = hashRing ex1" "encs ex2 = encs ex1" "nextSC w2 = nextSC w1" by simp_all
      show ?thesis
      proof (cases e2)
        case (Some x)
        have I: "init c ex w = Returns (Some x, ex2, snd (Close ex2 w2))"
          using assms P1 TT SC P2 Some by (simp add: init_def Let_def)
        with True show ?thesis by (auto simp: targetNodes_def)
      next
        case None
        note P2 = P2 [unfolded None]
        have I: "init c ex w = Returns (None, ex2, w2)"
          using assms P1 TT SC P2 by (simp add: init_def Let_def)
        from init_sources_ok [OF P2] D1 obtain ds where DS:
          "decs ex2 = decs ex @ ds" "map (\<lambda>x. x = DecSC sc) ds = map (\<lambda>n. n = thisN) allN"
          by auto
        have F: "(\<lambda>n. n \<noteq> thisN \<and> connsMap l1 n = None) = (\<lambda>n. n \<noteq> thisN \<and> n \<notin> set ?T)"
          using T1(3) by auto
        from init_sources_trace [OF P2] T1(1,2) F have T2:
          "trace w2 = trace w
             @ map (\<lambda>n. EvConnect n (UID ex) None) (filter (\<lambda>n. n \<noteq> thisN) ?T)
             @ map (\<lambda>n. EvConnect n (UID ex) None) (filter (\<lambda>n. n \<noteq> thisN \<and> n \<notin> set ?T) allN)"
          by simp
        have "\<exists>sc ds. EncSC sc \<in> set (encs ex2) \<and> decs ex2 = decs ex @ ds
                        \<and> map (\<lambda>x. x = DecSC sc) ds = map (\<lambda>n. n = thisN) allN"
          using SC(2) KP(2) DS by (intro exI [of _ sc] exI [of _ ds]) simp
        with I K KP LT T2 True show ?thesis
          by (auto simp: targetNodes_def)
      qed
    qed
  qed
qed


lemmas init_eval =
  init_def targetNodes_def Connect_def ringAdd_def newShortCircuit_def logEv_def Close_def Let_def
  Gather_def Scatter_def Broadcast_def Partition_def newExchange_def
  sampleCtx_def quietCtx_def quietCtxB_def emptyWorld_def quietConn_def

theorem init_destinations_witness:
  "distributer quietCtxB = Some (\<lambda>node uid. Inr quietConn)
   \<and> allNodes quietCtxB = Some [''A'', ''B'']
   \<and> thisNode quietCtxB = Some ''B'' \<and> masterNode quietCtxB = Some ''A''
   \<and> targetNodes (Gather ''uid'') [''A'', ''B''] ''A'' = [''A'']
   \<and> targetNodes (Scatter ''uid'') [''A'', ''B''] ''A'' = [''A'', ''B'']
   \<and> (\<exists>err ex' w'. init quietCtxB (Gather ''uid'') emptyWorld = Returns (err, ex', w')
         \<and> decs ex' = [] \<and> nextSC w' = 0
         \<and> receive ex' w' = Returns (Inl EOF, ex', w'))
   \<and> (case init quietCtxB (Gather ''uid'') emptyWorld of
         Returns (err, ex', w') \<Rightarrow>
           err = None \<and> decs ex' = [] \<and> encs ex' = [EncGob 0] \<and> hashRing ex' = Some [''A'']
           \<and> trace w' = [EvConnect ''A'' ''uid'' None]
       | Panics \<Rightarrow> False | Blocks \<Rightarrow> False)
   \<and> (case init quietCtx (Gather ''uid'') emptyWorld of
         Returns (err, ex', w') \<Rightarrow>
           err = None \<and> decs ex' = [DecSC 0, DecDbg 0 ''THIS A OTHER B'']
           \<and> encs ex' = [EncSC 0] \<and> hashRing ex' = Some [''A'']
           \<and> trace w' = [EvConnect ''B'' ''uid'' None]
       | Panics \<Rightarrow> False | Blocks \<Rightarrow> False)
   \<and> (case init quietCtxB (Scatter ''uid'') emptyWorld of
         Returns (err, ex', w') \<Rightarrow>
           err = None \<and> decs ex' = [DecDbg 0 ''THIS B OTHER A'', DecSC 0]
           \<and> encs ex' = [EncGob 0, EncSC 0] \<and> hashRing ex' = Some [''A'', ''B'']
           \<and> trace w' = [EvConnect ''A'' ''uid'' None]
       | Panics \<Rightarrow> False | Blocks \<Rightarrow> False)"
proof -
  have C: "distributer quietCtxB = Some (\<lambda>node uid. Inr quietConn)"
    "allNodes quietCtxB = Some [''A'', ''B'']"
    "thisNode quietCtxB = Some ''B''" "masterNode quietCtxB = Some ''A''"
    by (simp_all add: quietCtxB_def quietCtx_def sampleCtx_def)
  note T = init_destinations [OF C]
  have G: "targetNodes (Gather ''uid'') [''A'', ''B''] ''A'' = [''A'']"
    using T [of "Gather ''uid''"] by (simp add: Gather_def newExchange_def)
  have S: "targetNodes (Scatter ''uid'') [''A'', ''B''] ''A'' = [''A'', ''B'']"
    using T [of "Scatter ''uid''"] by (simp add: Scatter_def newExchange_def)
  from T [of "Gather ''uid''" emptyWorld] obtain err ex' w' where
    I: "init quietCtxB (Gather ''uid'') emptyWorld = Returns (err, ex', w')"
    by (metis prod_cases3)
  have D0: "decs (Gather ''uid'') = []" "nextSC emptyWorld = 0"
    by (simp_all add: Gather_def newExchange_def emptyWorld_def)
  from T [of "Gather ''uid''" emptyWorld err ex' w'] I G D0
  have R: "decs ex' = [] \<and> nextSC w' = 0 \<and> receive ex' w' = Returns (Inl EOF, ex', w')"
    by simp
  have V1: "(case init quietCtxB (Gather ''uid'') emptyWorld of
         Returns (err, ex', w') \<Rightarrow>
           err = None \<and> decs ex' = [] \<and> encs ex' = [EncGob 0] \<and> hashRing ex' = Some [''A'']
           \<and> trace w' = [EvConnect ''A'' ''uid'' None]
       | Panics \<Rightarrow> False | Blocks \<Rightarrow> False)"
    by (simp add: init_eval)
  have V2: "(case init quietCtx (Gather ''uid'') emptyWorld of
         Returns (err, ex', w') \<Rightarrow>
           err = None \<and> decs ex' = [DecSC 0, DecDbg 0 ''THIS A OTHER B'']
           \<and> encs ex' = [EncSC 0] \<and> hashRing ex' = Some [''A'']
           \<and> trace w' = [EvConnect ''B'' ''uid'' None]
       | Panics \<Rightarrow> False | Blocks \<Rightarrow> False)"
    by (simp add: init_eval)
  have V3: "(case init quietCtxB (Scatter ''uid'') emptyWorld of
         Returns (err, ex', w') \<Rightarrow>
           err = None \<and> decs ex' = [DecDbg 0 ''THIS B OTHER A'', DecSC 0]
           \<and> encs ex' = [EncGob 0, EncSC 0] \<and> hashRing ex' = Some [''A'', ''B'']
           \<and> trace w' = [EvConnect ''A'' ''uid'' None]
       | Panics \<Rightarrow> False | Blocks \<Rightarrow> False)"
    by (simp add: init_eval)
  from C G S I R V1 V2 V3 show ?thesis by blast
qed


section \<open>Partition sends\<close>

lemma getPartitionEncoder_route:
  "hashRing ex = Some ms \<Longrightarrow> getPartitionEncoder key ex w = Returns (routeKey ex w ms key)"
  by (simp add: getPartitionEncoder_def routeKey_def ringGet_def split: option.splits)

lemma Strings_At_Returns:
  "Strings_At data col = Returns ids \<Longrightarrow> ids = map (\<lambda>r. r ! nat col) data"
  by (simp add: Strings_At_def split: if_splits)

lemma firstOccs_snoc:
  "firstOccs (xs @ [x]) = (if x \<in> set xs then firstOccs xs else firstOccs xs @ [x])"
  by (simp add: firstOccs_def)

lemma firstOccs_set [simp]: "set (firstOccs xs) = set xs"
  by (simp add: firstOccs_def)

lemma firstOccs_distinct [simp]: "distinct (firstOccs xs)"
  by (simp add: firstOccs_def)

lemma rights_append: "rights (xs @ ys) = rights xs @ rights ys"
  by (induction xs rule: rights.induct) simp_all

lemma rights_set: "(b \<in> set (rights xs)) = (Inr b \<in> set xs)"
  by (induction xs rule: rights.induct) auto

lemma update_new:
  "k \<notin> fst ` set m \<Longrightarrow> AList.update k v m = m @ [(k, v)]"
  by (induction m) auto

lemma update_old:
  "distinct (map fst m) \<Longrightarrow> k \<in> fst ` set m \<Longrightarrow>
     AList.update k v m = map (\<lambda>p. if fst p = k then (k, v) else p) m"
proof (induction m)
  case Nil
  then show ?case by simp
next
  case (Cons p m)
  show ?case
  proof (cases "fst p = k")
    case True
    from Cons.prems(1) True have "k \<notin> fst ` set m" by simp
    then have "\<forall>q\<in>set m. fst q \<noteq> k" by (auto simp: image_iff)
    then have "map (\<lambda>p. if fst p = k then (k, v) else p) m = m"
      by (induction m) auto
    with True show ?thesis by simp
  next
    case False
    with Cons.prems have "distinct (map fst m)" "k \<in> fst ` set m" by auto
    from Cons.IH [OF this] False show ?thesis by simp
  qed
qed

lemma map_of_keyed:
  "map_of (map (\<lambda>k. (k, f k)) ks) k = (if k \<in> set ks then Some (f k) else None)"
  by (induction ks) auto

lemma filter_no_dest:
  "enc \<notin> set (rights (map route pre)) \<Longrightarrow> filter (\<lambda>r. route r = Inr enc) pre = []"
  by (induction pre) (auto simp: rights_set)

lemma groupRows_snoc:
  assumes "route r = Inr enc"
  shows "AList.update enc
           (Append (case map_of (groupRows route pre) enc of None \<Rightarrow> NewDataset | Some d0 \<Rightarrow> d0) [r])
           (groupRows route pre)
         = groupRows route (pre @ [r])"
proof -
  let ?ks = "firstOccs (rights (map route pre))"
  let ?f = "\<lambda>k. filter (\<lambda>r. route r = Inr k) pre"
  have G: "groupRows route pre = map (\<lambda>k. (k, ?f k)) ?ks" by (simp add: groupRows_def)
  have R: "rights (map route (pre @ [r])) = rights (map route pre) @ [enc]"
    using assms by (simp add: rights_append)
  show ?thesis
  proof (cases "enc \<in> set (rights (map route pre))")
    case True
    then have M: "map_of (groupRows route pre) enc = Some (?f enc)"
      by (simp add: G map_of_keyed)
    have K: "enc \<in> fst ` set (groupRows route pre)"
      using True by (force simp: G)
    have D: "distinct (map fst (groupRows route pre))"
      by (simp add: G comp_def)
    have "AList.update enc (Append (?f enc) [r]) (groupRows route pre)
        = map (\<lambda>p. if fst p = enc then (enc, Append (?f enc) [r]) else p) (groupRows route pre)"
      by (rule update_old [OF D K])
    also have "\<dots> = map (\<lambda>k. (k, filter (\<lambda>r. route r = Inr k) (pre @ [r]))) ?ks"
      using assms by (auto simp: G Append_def)
    also have "\<dots> = groupRows route (pre @ [r])"
      unfolding groupRows_def R firstOccs_snoc using True by simp
    finally show ?thesis by (simp add: M)
  next
    case False
    then have M: "map_of (groupRows route pre) enc = None"
      by (simp add: G map_of_keyed)
    have K: "enc \<notin> fst ` set (groupRows route pre)"
      using False by (force simp: G)
    have E: "?f enc = []" using False by (rule filter_no_dest)
    have "AList.update enc (Append NewDataset [r]) (groupRows route pre)
        = groupRows route pre @ [(enc, Append NewDataset [r])]"
      by (rule update_new [OF K])
    also have "\<dots> = map (\<lambda>k. (k, filter (\<lambda>r. route r = Inr k) (pre @ [r]))) (?ks @ [enc])"
      using assms False E by (auto simp: G Append_def NewDataset_def)
    also have "\<dots> = groupRows route (pre @ [r])"
      unfolding groupRows_def R firstOccs_snoc using False by simp
    finally show ?thesis by (simp add: M)
  qed
qed

lemma Slice_one: "k < length data \<Longrightarrow> Slice data k (Suc k) = [data ! k]"
  by (simp add: Slice_def Cons_nth_drop_Suc [symmetric])

lemma concat_if_filter: "concat (map (\<lambda>k. if P k then [k] else []) ks) = filter P ks"
  by (induction ks) auto

lemma zip_from:
  "k < length data \<Longrightarrow>
     zip [k..<length data] (map f (drop k data))
       = (k, f (data ! k)) # zip [Suc k..<length data] (map f (drop (Suc k) data))"
  by (simp add: upt_conv_Cons Cons_nth_drop_Suc [symmetric])

lemma partition_group_ok:
  assumes H: "hashRing ex = Some ms"
    and A: "\<forall>r\<in>set data. \<exists>enc. routeKey ex w ms (r ! c) = Inr enc"
  shows "k \<le> length data \<Longrightarrow>
     partition_group data (zip [k..<length data] (map (\<lambda>r. r ! c) (drop k data))) ex w
        (groupRows (\<lambda>r. routeKey ex w ms (r ! c)) (take k data))
       = Returns (Inr (groupRows (\<lambda>r. routeKey ex w ms (r ! c)) data))"
proof (induction "length data - k" arbitrary: k)
  case 0
  then show ?case by simp
next
  case (Suc n)
  then have kl: "k < length data" by simp
  let ?route = "\<lambda>r. routeKey ex w ms (r ! c)"
  from A kl obtain enc where E: "?route (data ! k) = Inr enc" by force
  have T: "take (Suc k) data = take k data @ [data ! k]"
    using kl by (rule take_Suc_conv_app_nth)
  have n: "n = length data - Suc k" using Suc.hyps(2) by simp
  have "Suc k \<le> length data" using kl by simp
  from Suc.hyps(1) [OF n this] groupRows_snoc [of ?route "data ! k" enc "take k data", OF E]
  show ?case
    by (simp add: zip_from [OF kl] getPartitionEncoder_route [OF H] E Slice_one [OF kl] T)
qed

lemma firstRouteError_None:
  "firstRouteError route data = None \<Longrightarrow> \<forall>r\<in>set data. \<exists>enc. route r = Inr enc"
  by (induction data) (auto split: sum.splits)

lemma partition_group_fail:
  assumes H: "hashRing ex = Some ms"
  shows "k \<le> length data \<Longrightarrow>
     firstRouteError (\<lambda>r. routeKey ex w ms (r ! c)) (drop k data) = Some err \<Longrightarrow>
     partition_group data (zip [k..<length data] (map (\<lambda>r. r ! c) (drop k data))) ex w m
       = Returns (Inl err)"
proof (induction "length data - k" arbitrary: k m)
  case 0
  then show ?case by simp
next
  case (Suc n)
  then have kl: "k < length data" by simp
  have D: "drop k data = data ! k # drop (Suc k) data"
    using kl by (simp add: Cons_nth_drop_Suc)
  show ?case
  proof (cases "routeKey ex w ms (data ! k ! c)")
    case (Inl e)
    with Suc.prems(2) D have "e = err" by simp
    with Inl show ?thesis
      by (simp add: zip_from [OF kl] getPartitionEncoder_route [OF H])
  next
    case (Inr enc)
    with Suc.prems(2) D
    have F: "firstRouteError (\<lambda>r. routeKey ex w ms (r ! c)) (drop (Suc k) data) = Some err"
      by simp
    have n: "n = length data - Suc k" using Suc.hyps(2) by simp
    have "Suc k \<le> length data" using kl by simp
    from Suc.hyps(1) [OF n this F] Inr show ?thesis
      by (simp add: zip_from [OF kl] getPartitionEncoder_route [OF H] Let_def)
  qed
qed

lemma groupRows_distinct: "distinct (map fst (groupRows route data))"
  by (simp add: groupRows_def comp_def)

lemma fst_filter_key:
  "distinct (map fst m) \<Longrightarrow>
     map fst (filter (\<lambda>p. fst p = k) m) = (if k \<in> fst ` set m then [k] else [])"
proof (induction m)
  case Nil
  then show ?case by simp
next
  case (Cons p m)
  then show ?case by (auto simp: image_iff filter_empty_conv)
qed

lemma mapRange_perm:
  assumes "distinct (map fst m)"
  shows "distinct (map fst (mapRange w m)) \<and> set (mapRange w m) = set m"
proof
  let ?ks = "remdups (mapOrder w)"
  have "map fst (concat (map (\<lambda>k. filter (\<lambda>p. fst p = k) m) ?ks))
        = concat (map (\<lambda>k. if k \<in> fst ` set m then [k] else []) ?ks)"
    by (simp add: map_concat comp_def fst_filter_key [OF assms])
  also have "\<dots> = filter (\<lambda>k. k \<in> fst ` set m) ?ks"
    by (rule concat_if_filter)
  finally have F: "map fst (concat (map (\<lambda>k. filter (\<lambda>p. fst p = k) m) ?ks))
        = filter (\<lambda>k. k \<in> fst ` set m) ?ks" .
  have S: "map fst (filter (\<lambda>p. fst p \<notin> set (mapOrder w)) m)
        = filter (\<lambda>k. k \<notin> set (mapOrder w)) (map fst m)"
    by (simp add: filter_map comp_def)
  show "distinct (map fst (mapRange w m))"
    unfolding mapRange_def map_append F S using assms by auto
  show "set (mapRange w m) = set m"
    by (auto simp: mapRange_def)
qed

lemma partition_send_all:
  "encodeSeq (map (\<lambda>(enc, d). (enc, PDataset d)) ps) w = Returns (rs, w') \<Longrightarrow>
     \<forall>r\<in>set rs. r = None \<Longrightarrow> partition_send ps w = Returns (None, w')"
proof (induction ps arbitrary: w rs)
  case Nil
  then show ?case by simp
next
  case (Cons p ps)
  obtain enc d where p: "p = (enc, d)" by (cases p)
  from Cons.prems(1) p obtain r w1 where E: "Encode enc (PDataset d) w = Returns (r, w1)"
    by (cases "Encode enc (PDataset d) w") auto
  with Cons.prems(1) p obtain rs1 where
    S: "encodeSeq (map (\<lambda>(enc, d). (enc, PDataset d)) ps) w1 = Returns (rs1, w')" and rs: "rs = r # rs1"
    by (cases "encodeSeq (map (\<lambda>(enc, d). (enc, PDataset d)) ps) w1") auto
  from Cons.prems(2) rs have "r = None" "\<forall>r\<in>set rs1. r = None" by simp_all
  with Cons.IH [OF S] E p show ?case by simp
qed

lemma partition_send_abort:
  "encodeSeq (map (\<lambda>(enc, d). (enc, PDataset d)) ps1) w = Returns (rs, w1) \<Longrightarrow>
     \<forall>r\<in>set rs. r = None \<Longrightarrow>
     Encode enc (PDataset d) w1 = Returns (Some e, w2) \<Longrightarrow>
     partition_send (ps1 @ (enc, d) # ps2) w = Returns (Some e, w2)"
proof (induction ps1 arbitrary: w rs)
  case Nil
  then show ?case by simp
next
  case (Cons p ps)
  obtain enc0 d0 where p: "p = (enc0, d0)" by (cases p)
  from Cons.prems(1) p obtain r w0 where E: "Encode enc0 (PDataset d0) w = Returns (r, w0)"
    by (cases "Encode enc0 (PDataset d0) w") auto
  with Cons.prems(1) p obtain rs1 where
    S: "encodeSeq (map (\<lambda>(enc, d). (enc, PDataset d)) ps) w0 = Returns (rs1, w1)" and rs: "rs = r # rs1"
    by (cases "encodeSeq (map (\<lambda>(enc, d). (enc, PDataset d)) ps) w0") auto
  from Cons.prems(2) rs have "r = None" "\<forall>r\<in>set rs1. r = None" by simp_all
  with Cons.IH [OF S _ Cons.prems(3)] E p show ?case by simp
qed

lemma groupRows_entries:
  "((enc, d) \<in> set (groupRows route data))
     = (d = filter (\<lambda>r. route r = Inr enc) data \<and> d \<noteq> [])"
proof -
  have "(enc \<in> set (rights (map route data))) = (filter (\<lambda>r. route r = Inr enc) data \<noteq> [])"
    by (force simp: rights_set filter_empty_conv image_iff)
  then show ?thesis by (auto simp: groupRows_def)
qed

lemma encodePartition_eq:
  assumes H: "hashRing ex = Some ms" and C: "0 \<le> partitionCol ex"
    and R: "list_all (\<lambda>r. nat (partitionCol ex) < length r) data"
  shows "encodePartition (PDataset data) ex w =
           (case firstRouteError (routeRow ex w ms) data of
              Some err \<Rightarrow> Returns (Some err, w)
            | None \<Rightarrow> partition_send (mapRange w (groupRows (routeRow ex w ms) data)) w)"
proof -
  let ?c = "nat (partitionCol ex)"
  let ?ids = "map (\<lambda>r. r ! ?c) data"
  have RR: "routeRow ex w ms = (\<lambda>r. routeKey ex w ms (r ! ?c))"
    by (rule ext) (simp add: routeRow_def)
  have S: "Strings_At data (partitionCol ex) = Returns ?ids"
    using C R by (simp add: Strings_At_def)
  have Z: "zip [0..<length ?ids] ?ids = zip [0..<length data] (map (\<lambda>r. r ! ?c) (drop 0 data))"
    by simp
  have E: "encodePartition (PDataset data) ex w =
             obind (partition_group data (zip [0..<length data] (map (\<lambda>r. r ! ?c) (drop 0 data))) ex w [])
               (\<lambda>r. case r of
                      Inl err \<Rightarrow> Returns (Some err, w)
                    | Inr dataByEncoder \<Rightarrow> partition_send (mapRange w dataByEncoder) w)"
    unfolding encodePartition_def by (simp only: payload.case S obind.simps Z)
  show ?thesis
  proof (cases "firstRouteError (routeRow ex w ms) data")
    case None
    from firstRouteError_None [OF None]
    have A: "\<forall>r\<in>set data. \<exists>enc. routeKey ex w ms (r ! ?c) = Inr enc" by (simp add: RR)
    have G0: "groupRows (\<lambda>r. routeKey ex w ms (r ! ?c)) (take 0 data) = []"
      by (simp add: groupRows_def firstOccs_def)
    from partition_group_ok [OF H A, of 0] G0
    have "partition_group data (zip [0..<length data] (map (\<lambda>r. r ! ?c) (drop 0 data))) ex w []
            = Returns (Inr (groupRows (\<lambda>r. routeKey ex w ms (r ! ?c)) data))"
      by simp
    with None show ?thesis unfolding E by (simp add: RR)
  next
    case (Some err)
    then have F: "firstRouteError (\<lambda>r. routeKey ex w ms (r ! ?c)) (drop 0 data) = Some err"
      by (simp add: RR)
    from partition_group_fail [OF H _ F, of "[]"]
    have "partition_group data (zip [0..<length data] (map (\<lambda>r. r ! ?c) (drop 0 data))) ex w []
            = Returns (Inl err)"
      by simp
    with Some show ?thesis unfolding E by simp
  qed
qed

text \<open>
  C3. A partition send over a dataset, on an exchange with its hash ring and with the key
  column present in every row. Every key is routed by the hash ring and then by the
  encoders-by-address map. If some row has no destination, the error of the first such row
  is returned and the world is untouched: nothing is sent. Otherwise the rows are grouped
  into one pending dataset per destination, each holding the rows of that destination in
  their input order (and no destination without a row has one), the runtime ranges over
  the pending datasets in an order of its own that visits each of them once, and each is
  passed to \<open>Encode\<close> of its encoder until an \<open>Encode\<close> returns an error: when every
  \<open>Encode\<close> succeeds every pending dataset has been encoded exactly once and the send
  returns nil, and the first \<open>Encode\<close> that fails ends the send with its error, the
  pending datasets after it being left unsent.
\<close>

theorem encodePartition_routing:
  assumes "hashRing ex = Some ms" "0 \<le> partitionCol ex"
    "list_all (\<lambda>r. nat (partitionCol ex) < length r) data"
  shows "(\<forall>key. getPartitionEncoder key ex w = Returns (routeKey ex w ms key))
   \<and> encodePartition (PDataset data) ex w =
        (case firstRouteError (routeRow ex w ms) data of
           Some err \<Rightarrow> Returns (Some err, w)
         | None \<Rightarrow> partition_send (mapRange w (groupRows (routeRow ex w ms) data)) w)
   \<and> distinct (map fst (mapRange w (groupRows (routeRow ex w ms) data)))
   \<and> set (mapRange w (groupRows (routeRow ex w ms) data)) = set (groupRows (routeRow ex w ms) data)
   \<and> (\<forall>enc d. ((enc, d) \<in> set (groupRows (routeRow ex w ms) data))
          = (d = filter (\<lambda>r. routeRow ex w ms r = Inr enc) data \<and> d \<noteq> []))
   \<and> (\<forall>ps rs w'.
         encodeSeq (map (\<lambda>(enc, d). (enc, PDataset d)) ps) w = Returns (rs, w')
         \<and> list_all (\<lambda>r. r = None) rs
         \<longrightarrow> partition_send ps w = Returns (None, w'))
   \<and> (\<forall>ps1 enc d ps2 rs w1 e w2.
         encodeSeq (map (\<lambda>(enc, d). (enc, PDataset d)) ps1) w = Returns (rs, w1)
         \<and> list_all (\<lambda>r. r = None) rs
         \<and> Encode enc (PDataset d) w1 = Returns (Some e, w2)
         \<longrightarrow> partition_send (ps1 @ (enc, d) # ps2) w = Returns (Some e, w2))
   \<and> (Type ex = partition \<longrightarrow>
         send (PDataset data) ex w
           = obind (encodePartition (PDataset data) ex w) (\<lambda>(err, w'). Returns (err, ex, w')))"
proof -
  let ?g = "groupRows (routeRow ex w ms) data"
  have 1: "\<forall>key. getPartitionEncoder key ex w = Returns (routeKey ex w ms key)"
    using getPartitionEncoder_route [OF assms(1)] by simp
  note 2 = encodePartition_eq [OF assms, of w]
  have D: "distinct (map fst ?g)" by (rule groupRows_distinct)
  note 3 = mapRange_perm [OF D, of w]
  have 4: "\<forall>enc d. ((enc, d) \<in> set ?g)
          = (d = filter (\<lambda>r. routeRow ex w ms r = Inr enc) data \<and> d \<noteq> [])"
    using groupRows_entries [of _ _ "routeRow ex w ms" data] by simp
  have 5: "\<forall>ps rs w'.
         encodeSeq (map (\<lambda>(enc, d). (enc, PDataset d)) ps) w = Returns (rs, w')
         \<and> list_all (\<lambda>r. r = None) rs
         \<longrightarrow> partition_send ps w = Returns (None, w')"
    using partition_send_all by (simp add: list_all_iff)
  have 6: "\<forall>ps1 enc d ps2 rs w1 e w2.
         encodeSeq (map (\<lambda>(enc, d). (enc, PDataset d)) ps1) w = Returns (rs, w1)
         \<and> list_all (\<lambda>r. r = None) rs
         \<and> Encode enc (PDataset d) w1 = Returns (Some e, w2)
         \<longrightarrow> partition_send (ps1 @ (enc, d) # ps2) w = Returns (Some e, w2)"
    using partition_send_abort by (simp add: list_all_iff)
  have 7: "Type ex = partition \<longrightarrow>
         send (PDataset data) ex w
           = obind (encodePartition (PDataset data) ex w) (\<lambda>(err, w'). Returns (err, ex, w'))"
    by (simp add: send_def)
  from 1 2 3 4 5 6 7 show ?thesis by blast
qed

lemmas part_eval =
  routeRow_def routeKey_def groupRows_def firstOccs_def mapRange_def
  Append_def NewDataset_def Slice_def Strings_At_def getPartitionEncoder_def ringGet_def
  encodePartition_def send_def logEv_def chanCap_def Let_def
  samplePartition_def sampleData_def Partition_def newExchange_def
  emptyWorld_def brokenWorld_def quietConn_def mod_Suc

theorem encodePartition_routing_witness:
  "hashRing samplePartition = Some [''A'', ''B'']
   \<and> 0 \<le> partitionCol samplePartition
   \<and> list_all (\<lambda>r. nat (partitionCol samplePartition) < length r) sampleData
   \<and> Type samplePartition = partition
   \<and> getPartitionEncoder ''k1'' samplePartition emptyWorld = Returns (Inr (EncSC 0))
   \<and> getPartitionEncoder ''k22'' samplePartition emptyWorld = Returns (Inr (EncGob 1))
   \<and> mapRange emptyWorld (groupRows (routeRow samplePartition emptyWorld [''A'', ''B'']) sampleData)
       = [(EncSC 0, [[''k1'', ''x''], [''k1'', ''z'']]), (EncGob 1, [[''k22'', ''y'']])]
   \<and> encodePartition (PDataset sampleData) samplePartition emptyWorld
       = Returns (None,
           emptyWorld\<lparr>scs := (scs emptyWorld)
                          (0 := \<lparr>C = [PDataset [[''k1'', ''x''], [''k1'', ''z'']]], closed = False\<rparr>),
                       netConns := (netConns emptyWorld)(1 := quietConn),
                       trace := [EvEncode (EncSC 0) (PDataset [[''k1'', ''x''], [''k1'', ''z'']]) None,
                                 EvEncode (EncGob 1) (PDataset [[''k22'', ''y'']]) None]\<rparr>)
   \<and> send (PDataset sampleData) samplePartition emptyWorld
       = Returns (None, samplePartition,
           emptyWorld\<lparr>scs := (scs emptyWorld)
                          (0 := \<lparr>C = [PDataset [[''k1'', ''x''], [''k1'', ''z'']]], closed = False\<rparr>),
                       netConns := (netConns emptyWorld)(1 := quietConn),
                       trace := [EvEncode (EncSC 0) (PDataset [[''k1'', ''x''], [''k1'', ''z'']]) None,
                                 EvEncode (EncGob 1) (PDataset [[''k22'', ''y'']]) None]\<rparr>)
   \<and> mapRange brokenWorld (groupRows (routeRow samplePartition brokenWorld [''A'', ''B'']) sampleData)
       = [(EncGob 1, [[''k22'', ''y'']]), (EncSC 0, [[''k1'', ''x''], [''k1'', ''z'']])]
   \<and> encodePartition (PDataset sampleData) samplePartition brokenWorld
       = Returns (Some (ExtError ''broken pipe''),
           brokenWorld\<lparr>netConns := (netConns brokenWorld)(1 := quietConn),
                        trace := [EvEncode (EncGob 1) (PDataset [[''k22'', ''y'']])
                                    (Some (ExtError ''broken pipe''))]\<rparr>)
   \<and> encodePartition (PDataset sampleData) (samplePartition\<lparr>encsByKey := [''A'' \<mapsto> EncSC 0]\<rparr>)
         emptyWorld
       = Returns (Some (Errorf ''no matching node found''), emptyWorld)
   \<and> encodePartition (PDataset sampleData) (samplePartition\<lparr>hashRing := Some []\<rparr>) emptyWorld
       = Returns (Some (Errorf ''cannot find a target node: empty circle''), emptyWorld)"
proof -
  let ?d1 = "[[''k1'', ''x''], [''k1'', ''z'']]"
  let ?d2 = "[[''k22'', ''y'']]"
  let ?W1 = "emptyWorld\<lparr>scs := (scs emptyWorld)(0 := \<lparr>C = [PDataset ?d1], closed = False\<rparr>),
                       netConns := (netConns emptyWorld)(1 := quietConn),
                       trace := [EvEncode (EncSC 0) (PDataset ?d1) None,
                                 EvEncode (EncGob 1) (PDataset ?d2) None]\<rparr>"
  let ?W2 = "brokenWorld\<lparr>netConns := (netConns brokenWorld)(1 := quietConn),
                        trace := [EvEncode (EncGob 1) (PDataset ?d2)
                                    (Some (ExtError ''broken pipe''))]\<rparr>"
  have H1: "hashRing samplePartition = Some [''A'', ''B'']"
    and H2: "0 \<le> partitionCol samplePartition"
    and H3: "list_all (\<lambda>r. nat (partitionCol samplePartition) < length r) sampleData"
    and H4: "Type samplePartition = partition"
    by (simp_all add: samplePartition_def sampleData_def Partition_def newExchange_def)
  note T = encodePartition_routing [OF H1 H2 H3, of emptyWorld]
  from T have K: "\<And>key. getPartitionEncoder key samplePartition emptyWorld
                     = Returns (routeKey samplePartition emptyWorld [''A'', ''B''] key)"
    by blast
  have G1: "getPartitionEncoder ''k1'' samplePartition emptyWorld = Returns (Inr (EncSC 0))"
    unfolding K by (simp add: part_eval)
  have G2: "getPartitionEncoder ''k22'' samplePartition emptyWorld = Returns (Inr (EncGob 1))"
    unfolding K by (simp add: part_eval)
  have M1: "mapRange emptyWorld
              (groupRows (routeRow samplePartition emptyWorld [''A'', ''B'']) sampleData)
            = [(EncSC 0, ?d1), (EncGob 1, ?d2)]"
    by (simp add: part_eval)
  have F1: "firstRouteError (routeRow samplePartition emptyWorld [''A'', ''B'']) sampleData = None"
    by (simp add: part_eval)
  from T have E: "encodePartition (PDataset sampleData) samplePartition emptyWorld =
        (case firstRouteError (routeRow samplePartition emptyWorld [''A'', ''B'']) sampleData of
           Some err \<Rightarrow> Returns (Some err, emptyWorld)
         | None \<Rightarrow> partition_send (mapRange emptyWorld
                      (groupRows (routeRow samplePartition emptyWorld [''A'', ''B'']) sampleData))
                      emptyWorld)"
    by blast
  from T have P5: "\<And>ps rs w'.
         encodeSeq (map (\<lambda>(enc, d). (enc, PDataset d)) ps) emptyWorld = Returns (rs, w') \<Longrightarrow>
         list_all (\<lambda>r. r = None) rs \<Longrightarrow> partition_send ps emptyWorld = Returns (None, w')"
    by blast
  have S1: "partition_send [(EncSC 0, ?d1), (EncGob 1, ?d2)] emptyWorld = Returns (None, ?W1)"
    by (rule P5 [where rs = "[None, None]"])
       (simp_all add: logEv_def chanCap_def Let_def emptyWorld_def quietConn_def)
  have V1: "encodePartition (PDataset sampleData) samplePartition emptyWorld = Returns (None, ?W1)"
    unfolding E F1 M1 using S1 by simp
  from T H4 have L: "send (PDataset sampleData) samplePartition emptyWorld
           = obind (encodePartition (PDataset sampleData) samplePartition emptyWorld)
               (\<lambda>(err, w'). Returns (err, samplePartition, w'))"
    by blast
  have V6: "send (PDataset sampleData) samplePartition emptyWorld
              = Returns (None, samplePartition, ?W1)"
    unfolding L V1 by simp
  note T' = encodePartition_routing [OF H1 H2 H3, of brokenWorld]
  have M2: "mapRange brokenWorld
              (groupRows (routeRow samplePartition brokenWorld [''A'', ''B'']) sampleData)
            = [] @ (EncGob 1, ?d2) # [(EncSC 0, ?d1)]"
    by (simp add: part_eval)
  have F2: "firstRouteError (routeRow samplePartition brokenWorld [''A'', ''B'']) sampleData = None"
    by (simp add: part_eval)
  from T' have E': "encodePartition (PDataset sampleData) samplePartition brokenWorld =
        (case firstRouteError (routeRow samplePartition brokenWorld [''A'', ''B'']) sampleData of
           Some err \<Rightarrow> Returns (Some err, brokenWorld)
         | None \<Rightarrow> partition_send (mapRange brokenWorld
                      (groupRows (routeRow samplePartition brokenWorld [''A'', ''B'']) sampleData))
                      brokenWorld)"
    by blast
  from T' have P6: "\<And>ps1 enc d ps2 rs w1 e w2.
         encodeSeq (map (\<lambda>(enc, d). (enc, PDataset d)) ps1) brokenWorld = Returns (rs, w1) \<Longrightarrow>
         list_all (\<lambda>r. r = None) rs \<Longrightarrow>
         Encode enc (PDataset d) w1 = Returns (Some e, w2) \<Longrightarrow>
         partition_send (ps1 @ (enc, d) # ps2) brokenWorld = Returns (Some e, w2)"
    by blast
  have S2: "partition_send ([] @ (EncGob 1, ?d2) # [(EncSC 0, ?d1)]) brokenWorld
              = Returns (Some (ExtError ''broken pipe''), ?W2)"
    by (rule P6 [where rs = "[]" and ?w1.0 = brokenWorld])
       (simp_all add: logEv_def Let_def brokenWorld_def emptyWorld_def quietConn_def)
  have V5: "encodePartition (PDataset sampleData) samplePartition brokenWorld
              = Returns (Some (ExtError ''broken pipe''), ?W2)"
    unfolding E' F2 M2 using S2 by simp
  let ?ex1 = "samplePartition\<lparr>encsByKey := [''A'' \<mapsto> EncSC 0]\<rparr>"
  have H1a: "hashRing ?ex1 = Some [''A'', ''B'']" and H2a: "0 \<le> partitionCol ?ex1"
    and H3a: "list_all (\<lambda>r. nat (partitionCol ?ex1) < length r) sampleData"
    by (simp_all add: samplePartition_def sampleData_def Partition_def newExchange_def)
  from encodePartition_routing [OF H1a H2a H3a, of emptyWorld]
  have E1: "encodePartition (PDataset sampleData) ?ex1 emptyWorld =
        (case firstRouteError (routeRow ?ex1 emptyWorld [''A'', ''B'']) sampleData of
           Some err \<Rightarrow> Returns (Some err, emptyWorld)
         | None \<Rightarrow> partition_send (mapRange emptyWorld
                      (groupRows (routeRow ?ex1 emptyWorld [''A'', ''B'']) sampleData))
                      emptyWorld)"
    by blast
  have V2: "encodePartition (PDataset sampleData) ?ex1 emptyWorld
       = Returns (Some (Errorf ''no matching node found''), emptyWorld)"
    unfolding E1 by (simp add: routeRow_def routeKey_def samplePartition_def sampleData_def
        Partition_def newExchange_def emptyWorld_def mod_Suc)
  let ?ex2 = "samplePartition\<lparr>hashRing := Some []\<rparr>"
  have H1b: "hashRing ?ex2 = Some []" and H2b: "0 \<le> partitionCol ?ex2"
    and H3b: "list_all (\<lambda>r. nat (partitionCol ?ex2) < length r) sampleData"
    by (simp_all add: samplePartition_def sampleData_def Partition_def newExchange_def)
  from encodePartition_routing [OF H1b H2b H3b, of emptyWorld]
  have E2: "encodePartition (PDataset sampleData) ?ex2 emptyWorld =
        (case firstRouteError (routeRow ?ex2 emptyWorld []) sampleData of
           Some err \<Rightarrow> Returns (Some err, emptyWorld)
         | None \<Rightarrow> partition_send (mapRange emptyWorld
                      (groupRows (routeRow ?ex2 emptyWorld []) sampleData))
                      emptyWorld)"
    by blast
  have V3: "encodePartition (PDataset sampleData) ?ex2 emptyWorld
       = Returns (Some (Errorf ''cannot find a target node: empty circle''), emptyWorld)"
    unfolding E2 by (simp add: routeRow_def routeKey_def sampleData_def)
  have M2': "mapRange brokenWorld
              (groupRows (routeRow samplePartition brokenWorld [''A'', ''B'']) sampleData)
            = [(EncGob 1, ?d2), (EncSC 0, ?d1)]"
    using M2 by simp
  from H1 H2 H3 H4 G1 G2 M1 V1 V6 M2' V5 V2 V3 show ?thesis by blast
qed

text \<open>
  C3 as stated fails when an \<open>Encode\<close> fails: two pending datasets have been built, the
  runtime visits the one of connection 1 first, its \<open>Encode\<close> fails, and the send returns
  that error with the pending dataset of the short-circuit never encoded.
\<close>

theorem encodePartition_abort_counterexample:
  "partition_group sampleData [(0, ''k1''), (1, ''k22''), (2, ''k1'')] samplePartition brokenWorld []
     = Returns (Inr [(EncSC 0, [[''k1'', ''x''], [''k1'', ''z'']]), (EncGob 1, [[''k22'', ''y'']])])
   \<and> scs brokenWorld 0 = \<lparr>C = [], closed = False\<rparr>
   \<and> encodePartition (PDataset sampleData) samplePartition brokenWorld
       = Returns (Some (ExtError ''broken pipe''),
           brokenWorld\<lparr>netConns := (netConns brokenWorld)(1 := quietConn),
                        trace := [EvEncode (EncGob 1) (PDataset [[''k22'', ''y'']])
                                    (Some (ExtError ''broken pipe''))]\<rparr>)"
  by (simp add: part_eval)

end
